theory Spec2Isabelle
  imports Main
begin

section \<open>Data model\<close>

text \<open>
  The log service stores events and lets viewers read one historical page
  (\<^verbatim>\<open>ReadHandler.HandleRead\<close>) and then tail new events through a
  subscription registry (\<^verbatim>\<open>watch.Watcher\<close>).

  Of \<^verbatim>\<open>domain.Event\<close> the code under study reads the field \<^verbatim>\<open>UUID\<close> only.
\<close>

record Event =
  UUID :: string

text \<open>
  A \<^verbatim>\<open>time.Time\<close> is the number of nanoseconds since the zero instant, so that
  \<^verbatim>\<open>IsZero\<close> is the comparison with 0 and \<^verbatim>\<open>Add\<close> is addition.
\<close>

type_synonym time = int

definition IsZero :: "time \<Rightarrow> bool" where
  "IsZero t = (t = 0)"

definition Hour :: int where
  "Hour = 3600 * 1000000000"

definition Add :: "time \<Rightarrow> int \<Rightarrow> time" where
  "Add t d = t + d"

record LogQuery =
  Services :: "string list"
  Severity :: int
  SinceTime :: time
  UntilTime :: time
  SinceUUID :: string
  Reverse :: bool

text \<open>
  Errors are values. \<^verbatim>\<open>errors.InternalService\<close> and \<^verbatim>\<open>errors.Wrap\<close> are the two
  constructors the code calls; \<open>Foreign\<close> stands for an error produced outside
  the code under study (the storage engine, \<^verbatim>\<open>time.Parse\<close>, the template engine).
\<close>

datatype error = InternalService string | Foreign string | Wrap error

text \<open>The storage engine \<^verbatim>\<open>LogRepository.Find\<close> is a parameter of the model.\<close>

type_synonym finder = "LogQuery \<Rightarrow> error + Event list"

section \<open>The subscription registry\<close>

text \<open>
  A delivery channel is a bounded queue: its capacity and the events buffered in it.
  A channel is known by its identity, a query by the address of the
  \<^verbatim>\<open>LogQuery\<close> object: the registry stores \<^verbatim>\<open>*repository.LogQuery\<close>, and the
  notify pass writes through that pointer. The registry is \<open>None\<close> while the
  Go map is nil.

  The lock \<^verbatim>\<open>mux\<close> makes \<^verbatim>\<open>Subscribe\<close>, \<^verbatim>\<open>Unsubscribe\<close> and \<^verbatim>\<open>notifySubscribers\<close>
  atomic with respect to each other, so each is a function from state to state.
  No code of the repository closes a subscriber channel, and no receiver runs inside an
  operation of the model: channels are open and drained between operations only.
\<close>

type_synonym chan = nat
type_synonym qref = nat

record chan_state =
  cap :: nat
  buf :: "Event list"

record world =
  subscribers :: "(chan \<rightharpoonup> qref) option"
  heap :: "qref \<Rightarrow> LogQuery"
  chans :: "chan \<Rightarrow> chan_state"
  slog :: "error list"

definition entries :: "world \<Rightarrow> (chan \<rightharpoonup> qref)" where
  "entries w = (case subscribers w of None \<Rightarrow> Map.empty | Some m \<Rightarrow> m)"

definition Subscribe :: "chan \<Rightarrow> qref \<Rightarrow> world \<Rightarrow> error option \<times> world" where
  "Subscribe c q w =
     (if SinceUUID (heap w q) = ''''
      then (Some (InternalService ''SinceUUID not set in subscriber query''), w)
      else
        let m = (case subscribers w of None \<Rightarrow> Map.empty | Some m \<Rightarrow> m)
        in (None, w\<lparr>subscribers := Some (m(c \<mapsto> q))\<rparr>))"

definition Unsubscribe :: "chan \<Rightarrow> world \<Rightarrow> world" where
  "Unsubscribe c w =
     w\<lparr>subscribers := (case subscribers w of None \<Rightarrow> None | Some m \<Rightarrow> Some (m(c := None)))\<rparr>"

text \<open>
  \<^verbatim>\<open>select { case c <- event: default: }\<close>: the send happens when the buffer has
  room, and the default branch is taken otherwise.
\<close>

definition trySend :: "Event \<Rightarrow> chan_state \<Rightarrow> chan_state" where
  "trySend e ch = (if length (buf ch) < cap ch then ch\<lparr>buf := buf ch @ [e]\<rparr> else ch)"

fun sendEvents :: "Event list \<Rightarrow> chan_state \<Rightarrow> chan_state" where
  "sendEvents [] ch = ch"
| "sendEvents (e # es) ch = sendEvents es (trySend e ch)"

text \<open>The body of the loop of \<^verbatim>\<open>notifySubscribers\<close>, for the entry \<open>(c, q)\<close>.\<close>

definition notifyOne :: "finder \<Rightarrow> chan \<times> qref \<Rightarrow> world \<Rightarrow> world" where
  "notifyOne Find cq w =
     (case cq of (c, q) \<Rightarrow>
        let w1 = w\<lparr>heap := (heap w)(q := (heap w q)\<lparr>Reverse := False\<rparr>)\<rparr> in
        case Find (heap w1 q) of
          Inl err \<Rightarrow> w1\<lparr>slog := slog w1 @ [err]\<rparr>
        | Inr events \<Rightarrow>
            let w2 = w1\<lparr>chans := (chans w1)(c := sendEvents events (chans w1 c))\<rparr> in
            if length events > 0
            then w2\<lparr>heap := (heap w2)
                   (q := (heap w2 q)\<lparr>SinceUUID := UUID (events ! (length events - 1))\<rparr>)\<rparr>
            else w2)"

text \<open>
  \<^verbatim>\<open>range w.subscribers\<close> visits every entry of the map once, in an order Go does
  not fix. The pass takes the order of the visit as \<open>kvs\<close>; \<open>range_order\<close> says
  which orders are possible for a registry.
\<close>

definition range_order :: "(chan \<rightharpoonup> qref) \<Rightarrow> (chan \<times> qref) list \<Rightarrow> bool" where
  "range_order m kvs = (distinct (map fst kvs) \<and> map_of kvs = m)"

fun notifySubscribers :: "finder \<Rightarrow> (chan \<times> qref) list \<Rightarrow> world \<Rightarrow> world" where
  "notifySubscribers Find [] w = w"
| "notifySubscribers Find (cq # kvs) w = notifySubscribers Find kvs (notifyOne Find cq w)"

text \<open>
  A run of notify passes, one per write signal: each pass has the storage engine as it
  answers at that time and its own visiting order.
\<close>

fun notifyPasses :: "(finder \<times> (chan \<times> qref) list) list \<Rightarrow> world \<Rightarrow> world" where
  "notifyPasses [] w = w"
| "notifyPasses (p # ps) w = notifyPasses ps (notifySubscribers (fst p) (snd p) w)"

section \<open>The read handler\<close>

record readRequest =
  body_Services :: string
  body_Severity :: int
  body_SinceTime :: string
  body_UntilTime :: string
  body_SinceUUID :: string
  body_Reverse :: bool

text \<open>\<^verbatim>\<open>strings.Replace(s, " ", "", -1)\<close> and \<^verbatim>\<open>strings.Split(s, ",")\<close>.\<close>

definition remove_spaces :: "string \<Rightarrow> string" where
  "remove_spaces s = filter (\<lambda>ch. ch \<noteq> CHR '' '') s"

fun split_comma :: "string \<Rightarrow> string list" where
  "split_comma [] = [[]]"
| "split_comma (x # xs) =
     (if x = CHR '','' then [] # split_comma xs
      else (case split_comma xs of [] \<Rightarrow> [[x]] | p # ps \<Rightarrow> (x # p) # ps))"

text \<open>\<^verbatim>\<open>time.Parse(htmlTimeFormat, s)\<close> is the parameter \<open>parse\<close>.\<close>

definition parseQuery :: "(string \<Rightarrow> error + time) \<Rightarrow> readRequest \<Rightarrow> error + LogQuery" where
  "parseQuery parse body =
     (let services = (if body_Services body \<noteq> ''''
                      then split_comma (remove_spaces (body_Services body)) else []);
          severity = body_Severity body
      in case (if body_SinceTime body \<noteq> '''' then parse (body_SinceTime body) else Inr 0) of
           Inl err \<Rightarrow> Inl (Wrap err)
         | Inr sinceTime \<Rightarrow>
             (case (if body_UntilTime body \<noteq> '''' then parse (body_UntilTime body) else Inr 0) of
                Inl err \<Rightarrow> Inl (Wrap err)
              | Inr untilTime \<Rightarrow>
                  Inr \<lparr>Services = services, Severity = severity, SinceTime = sinceTime,
                       UntilTime = untilTime, SinceUUID = body_SinceUUID body,
                       Reverse = body_Reverse body\<rparr>))"

text \<open>
  The value handed to the page template. \<open>'f\<close> is \<^verbatim>\<open>domain.FormattedEvent\<close>;
  \<^verbatim>\<open>Event.Format\<close> and \<^verbatim>\<open>Time.Format\<close> are parameters.
\<close>

record 'f page =
  FormattedEvents :: "'f list"
  page_Services :: string
  page_Severity :: int
  page_SinceTime :: string
  page_UntilTime :: string
  LastUUID :: string
  page_Reverse :: bool

fun Join :: "string list \<Rightarrow> string \<Rightarrow> string" where
  "Join [] sep = ''''"
| "Join [s] sep = s"
| "Join (s # ss) sep = s @ sep @ Join ss sep"

text \<open>Lines 89 to 97 of the handler: the resume cursor of a batch.\<close>

definition lastUUID :: "LogQuery \<Rightarrow> Event list \<Rightarrow> string" where
  "lastUUID query events =
     (if length events > 0
      then (if Reverse query then UUID (events ! 0) else UUID (events ! (length events - 1)))
      else '''')"

definition rsp :: "(Event \<Rightarrow> 'f) \<Rightarrow> (time \<Rightarrow> string) \<Rightarrow> LogQuery \<Rightarrow> Event list \<Rightarrow> 'f page" where
  "rsp format fmt_time query events =
     \<lparr>FormattedEvents = map format events,
      page_Services = Join (Services query) '', '',
      page_Severity = Severity query,
      page_SinceTime = fmt_time (SinceTime query),
      page_UntilTime = fmt_time (UntilTime query),
      LastUUID = lastUUID query events,
      page_Reverse = Reverse query\<rparr>"

text \<open>What the handler writes to the connection.\<close>

datatype response = WriteJSON error | Write string

text \<open>Lines 74 to 80: the query after the two defaults; the arguments are the two
  readings of \<^verbatim>\<open>time.Now()\<close>.\<close>

definition defaultWindow :: "time \<Rightarrow> time \<Rightarrow> LogQuery \<Rightarrow> LogQuery" where
  "defaultWindow now_since now_until query =
     (let q1 = (if IsZero (SinceTime query)
                then query\<lparr>SinceTime := Add now_since (- 1 * Hour)\<rparr> else query)
      in if IsZero (UntilTime q1) then q1\<lparr>UntilTime := now_until\<rparr> else q1)"

text \<open>
  \<^verbatim>\<open>HandleRead\<close>. \<open>tmpl\<close> is the result of \<^verbatim>\<open>template.ParseFiles\<close>: an error, or
  the template's \<^verbatim>\<open>Execute\<close>. The handler returns the query object as it leaves it,
  what it logged, and what it wrote.
\<close>

definition HandleRead ::
  "finder \<Rightarrow> time \<Rightarrow> time \<Rightarrow> (Event \<Rightarrow> 'f) \<Rightarrow> (time \<Rightarrow> string) \<Rightarrow>
   (error + ('f page \<Rightarrow> error + string)) \<Rightarrow> LogQuery \<Rightarrow> LogQuery \<times> error list \<times> response" where
  "HandleRead Find now_since now_until format fmt_time tmpl query0 =
     (let query = defaultWindow now_since now_until query0 in
      case Find query of
        Inl err \<Rightarrow> (query, [err], WriteJSON err)
      | Inr events \<Rightarrow>
          (case tmpl of
             Inl err \<Rightarrow> (query, [err], WriteJSON err)
           | Inr execute \<Rightarrow>
               (case execute (rsp format fmt_time query events) of
                  Inl err \<Rightarrow> (query, [err], WriteJSON err)
                | Inr bytes \<Rightarrow> (query, [], Write bytes))))"

section \<open>The contract of the storage engine\<close>

text \<open>
  What the registry expects of \<^verbatim>\<open>Find\<close>, for an order \<open>before\<close> in which UUIDs
  are assigned: a query that is not reversed is answered oldest first, with events
  strictly after its \<^verbatim>\<open>SinceUUID\<close> only.
\<close>

definition find_contract :: "(string \<Rightarrow> string \<Rightarrow> bool) \<Rightarrow> finder \<Rightarrow> bool" where
  "find_contract before Find =
     (\<forall>q evs. \<not> Reverse q \<longrightarrow> Find q = Inr evs \<longrightarrow>
        sorted_wrt (\<lambda>a b. before (UUID a) (UUID b)) evs \<and>
        (\<forall>e \<in> set evs. before (SinceUUID q) (UUID e)))"

text \<open>The cursor \<open>b\<close> is the cursor \<open>a\<close> or a later one.\<close>

definition not_backward :: "(string \<Rightarrow> string \<Rightarrow> bool) \<Rightarrow> string \<Rightarrow> string \<Rightarrow> bool" where
  "not_backward before a b = (b = a \<or> before a b)"

text \<open>
  The cursor the specification promises after the turn of a subscriber in a notify pass:
  the cursor it had when the storage engine failed or found nothing, and the UUID of the
  last event of the oldest-first result otherwise.
\<close>

definition spec_cursor :: "finder \<Rightarrow> LogQuery \<Rightarrow> string" where
  "spec_cursor Find query =
     (case Find (query\<lparr>Reverse := False\<rparr>) of
        Inl err \<Rightarrow> SinceUUID query
      | Inr evs \<Rightarrow> (if evs = [] then SinceUUID query else UUID (last evs)))"

section \<open>A concrete installation\<close>

text \<open>
  A log of four events \<open>u1\<close> to \<open>u4\<close>, a storage engine that answers from it, and a
  registry of two subscribers: channel 1 (room for one event, empty) with the query at
  address 10 (cursor \<open>u1\<close>, reversed), and channel 2 (room for one event, full) with the
  query at address 12 (cursor \<open>u3\<close>). The query at address 11 has no cursor.
\<close>

definition ex_rank :: "string \<Rightarrow> nat" where
  "ex_rank u = (if u = ''u1'' then 1 else if u = ''u2'' then 2 else if u = ''u3'' then 3
                else if u = ''u4'' then 4 else if u = ''u5'' then 5 else 0)"

definition ex_before :: "string \<Rightarrow> string \<Rightarrow> bool" where
  "ex_before a b = (ex_rank a < ex_rank b)"

definition ex_log :: "Event list" where
  "ex_log = [\<lparr>UUID = ''u1''\<rparr>, \<lparr>UUID = ''u2''\<rparr>, \<lparr>UUID = ''u3''\<rparr>, \<lparr>UUID = ''u4''\<rparr>]"

definition ex_after :: "string \<Rightarrow> Event \<Rightarrow> bool" where
  "ex_after since e = ex_before since (UUID e)"

definition ex_find :: finder where
  "ex_find q =
     (let evs = filter (ex_after (SinceUUID q)) ex_log
      in Inr (if Reverse q then rev evs else evs))"

text \<open>The storage engine after one more event, \<open>u5\<close>, has been written.\<close>

definition ex_log_later :: "Event list" where
  "ex_log_later = ex_log @ [\<lparr>UUID = ''u5''\<rparr>]"

definition ex_find_later :: finder where
  "ex_find_later q =
     (let evs = filter (ex_after (SinceUUID q)) ex_log_later
      in Inr (if Reverse q then rev evs else evs))"

definition ex_find_failing :: finder where
  "ex_find_failing q = Inl (Foreign ''storage'')"

definition ex_find_empty :: finder where
  "ex_find_empty q = Inr []"

definition ex_query :: "string \<Rightarrow> bool \<Rightarrow> LogQuery" where
  "ex_query since r =
     \<lparr>Services = [''lighting''], Severity = 0, SinceTime = 0, UntilTime = 0,
      SinceUUID = since, Reverse = r\<rparr>"

definition ex_heap :: "qref \<Rightarrow> LogQuery" where
  "ex_heap p = (if p = 10 then ex_query ''u1'' True
                else if p = 11 then ex_query [] False else ex_query ''u3'' False)"

definition ex_chans :: "chan \<Rightarrow> chan_state" where
  "ex_chans c = (if c = 1 then \<lparr>cap = 1, buf = []\<rparr> else \<lparr>cap = 1, buf = [\<lparr>UUID = ''u0''\<rparr>]\<rparr>)"

definition ex_world :: world where
  "ex_world = \<lparr>subscribers = Some (map_of [(1, 10), (2, 12)]), heap = ex_heap,
               chans = ex_chans, slog = []\<rparr>"

definition ex_order :: "(chan \<times> qref) list" where
  "ex_order = [(1, 10), (2, 12)]"

text \<open>
  For the read handler: a formatter that keeps the UUID of an event, a time format, a
  template that prints the resume cursor of the page, a time parser, and the request body
  a page without events leads to.
\<close>

definition ex_format :: "Event \<Rightarrow> string" where
  "ex_format e = UUID e"

definition ex_fmt_time :: "time \<Rightarrow> string" where
  "ex_fmt_time t = (if t = 0 then ''zero'' else ''set'')"

definition ex_execute :: "string page \<Rightarrow> error + string" where
  "ex_execute pg = Inr (LastUUID pg)"

definition ex_parse :: "string \<Rightarrow> error + time" where
  "ex_parse s = Inr 1"

definition ex_body :: readRequest where
  "ex_body = \<lparr>body_Services = ''lighting, heating'', body_Severity = 0, body_SinceTime = [],
              body_UntilTime = [], body_SinceUUID = [], body_Reverse = False\<rparr>"

definition ex_live :: LogQuery where
  "ex_live = \<lparr>Services = [''lighting'', ''heating''], Severity = 0, SinceTime = 0,
              UntilTime = 0, SinceUUID = [], Reverse = False\<rparr>"

section \<open>Properties of the registry operations\<close>

lemma entries_Unsubscribe: "entries (Unsubscribe c w) = (entries w)(c := None)"
  by (simp add: entries_def Unsubscribe_def split: option.splits)

lemma Unsubscribe_absent: "c \<notin> dom (entries w) \<Longrightarrow> Unsubscribe c w = w"
proof (cases "subscribers w")
  case None
  then show ?thesis by (simp add: Unsubscribe_def)
next
  case (Some m)
  assume "c \<notin> dom (entries w)"
  with Some have "m c = None" by (auto simp: entries_def)
  then have "m(c := None) = m" by (rule fun_upd_idem)
  with Some show ?thesis by (simp add: Unsubscribe_def)
qed

lemma Subscribe_empty:
  "SinceUUID (heap w q) = '''' \<Longrightarrow>
   Subscribe c q w = (Some (InternalService ''SinceUUID not set in subscriber query''), w)"
  by (simp add: Subscribe_def)

lemma trySend_cap [simp]: "cap (trySend e ch) = cap ch"
  by (simp add: trySend_def)

lemma sendEvents_cap [simp]: "cap (sendEvents evs ch) = cap ch"
  by (induction evs arbitrary: ch) simp_all

lemma sendEvents_buf:
  "buf (sendEvents evs ch) = buf ch @ take (cap ch - length (buf ch)) evs"
proof (induction evs arbitrary: ch)
  case Nil
  show ?case by simp
next
  case (Cons e es)
  show ?case
  proof (cases "length (buf ch) < cap ch")
    case True
    then have "cap ch - length (buf ch) = Suc (cap ch - Suc (length (buf ch)))" by arith
    with True show ?thesis by (simp add: Cons.IH trySend_def)
  next
    case False
    then show ?thesis by (simp add: Cons.IH trySend_def)
  qed
qed

lemma sendEvents_more [simp]: "chan_state.more (sendEvents evs ch) = chan_state.more ch"
  by (induction evs arbitrary: ch) (simp_all add: trySend_def)

lemma sendEvents_full: "cap ch \<le> length (buf ch) \<Longrightarrow> sendEvents evs (ch::chan_state) = ch"
  by (induction evs arbitrary: ch) (simp_all add: trySend_def)

lemma notifyOne_subscribers [simp]: "subscribers (notifyOne Find cq w) = subscribers w"
  by (cases cq) (simp add: notifyOne_def Let_def split: sum.splits)

lemma notifyOne_chans_other:
  "c' \<noteq> fst cq \<Longrightarrow> chans (notifyOne Find cq w) c' = chans w c'"
  by (cases cq) (simp add: notifyOne_def Let_def split: sum.splits)

lemma notifyOne_heap_other:
  "q' \<noteq> snd cq \<Longrightarrow> heap (notifyOne Find cq w) q' = heap w q'"
  by (cases cq) (simp add: notifyOne_def Let_def split: sum.splits)

lemma notifyOne_Inl:
  "Find ((heap w q)\<lparr>Reverse := False\<rparr>) = Inl err \<Longrightarrow>
   notifyOne Find (c, q) w =
     w\<lparr>heap := (heap w)(q := (heap w q)\<lparr>Reverse := False\<rparr>), slog := slog w @ [err]\<rparr>"
  by (simp add: notifyOne_def Let_def)

lemma notifyOne_Inr:
  "Find ((heap w q)\<lparr>Reverse := False\<rparr>) = Inr evs \<Longrightarrow>
   notifyOne Find (c, q) w =
     w\<lparr>heap := (heap w)(q := (heap w q)\<lparr>Reverse := False,
            SinceUUID := (if evs = [] then SinceUUID (heap w q) else UUID (last evs))\<rparr>),
       chans := (chans w)(c := sendEvents evs (chans w c))\<rparr>"
  by (simp add: notifyOne_def Let_def last_conv_nth)

lemma notifySubscribers_subscribers [simp]:
  "subscribers (notifySubscribers Find kvs w) = subscribers w"
  by (induction kvs arbitrary: w) simp_all

lemma notifySubscribers_chans_other:
  "c \<notin> fst ` set kvs \<Longrightarrow> chans (notifySubscribers Find kvs w) c = chans w c"
  by (induction kvs arbitrary: w) (simp_all add: notifyOne_chans_other)

lemma notifySubscribers_heap_other:
  "q \<notin> snd ` set kvs \<Longrightarrow> heap (notifySubscribers Find kvs w) q = heap w q"
  by (induction kvs arbitrary: w) (simp_all add: notifyOne_heap_other)

lemma range_order_dom: "range_order m kvs \<Longrightarrow> fst ` set kvs = dom m"
  unfolding range_order_def using dom_map_of_conv_image_fst [of kvs] by simp

lemma range_order_mem: "range_order m kvs \<Longrightarrow> (c, q) \<in> set kvs \<longleftrightarrow> m c = Some q"
  unfolding range_order_def using map_of_eq_Some_iff [of kvs c q] by simp

lemma notifyOne_heap_chans:
  "heap (notifyOne Find cq (w\<lparr>chans := cs\<rparr>)) = heap (notifyOne Find cq w)"
  by (cases cq) (simp add: notifyOne_def Let_def split: sum.splits)

lemma notifyOne_chans_update:
  "notifyOne Find cq (w\<lparr>chans := cs\<rparr>) =
   (notifyOne Find cq w)\<lparr>chans := chans (notifyOne Find cq (w\<lparr>chans := cs\<rparr>))\<rparr>"
  by (cases cq) (simp add: notifyOne_def Let_def split: sum.splits)

lemma notifySubscribers_heap_chans:
  "heap (notifySubscribers Find kvs (w\<lparr>chans := cs\<rparr>)) = heap (notifySubscribers Find kvs w)"
proof (induction kvs arbitrary: w cs)
  case Nil
  show ?case by simp
next
  case (Cons cq kvs)
  have "heap (notifySubscribers Find kvs (notifyOne Find cq (w\<lparr>chans := cs\<rparr>))) =
      heap (notifySubscribers Find kvs
        ((notifyOne Find cq w)\<lparr>chans := chans (notifyOne Find cq (w\<lparr>chans := cs\<rparr>))\<rparr>))"
    using notifyOne_chans_update [where Find = Find and cq = cq and w = w and cs = cs] by simp
  then show ?case by (simp add: Cons.IH)
qed

lemma notifyOne_chans_full:
  assumes "cap (chans w (fst cq)) \<le> length (buf (chans w (fst cq)))"
  shows "chans (notifyOne Find cq w) = chans w"
proof (cases cq)
  case (Pair c q)
  with assms have "sendEvents evs (chans w c) = chans w c" for evs
    by (simp add: sendEvents_full)
  with Pair show ?thesis
    by (simp add: notifyOne_def Let_def split: sum.splits)
qed

lemma notifySubscribers_chans_full:
  "(\<forall>c \<in> fst ` set kvs. cap (chans w c) \<le> length (buf (chans w c))) \<Longrightarrow>
   chans (notifySubscribers Find kvs w) = chans w"
proof (induction kvs arbitrary: w)
  case Nil
  show ?case by simp
next
  case (Cons cq kvs)
  then have one: "chans (notifyOne Find cq w) = chans w"
    by (simp add: notifyOne_chans_full)
  with Cons.prems have "chans (notifySubscribers Find kvs (notifyOne Find cq w)) =
      chans (notifyOne Find cq w)"
    by (intro Cons.IH) simp
  with one show ?case by simp
qed

lemma notifyOne_not_Reverse: "\<not> Reverse (heap (notifyOne Find cq w) (snd cq))"
  by (cases cq) (simp add: notifyOne_def Let_def split: sum.splits)

lemma notifyOne_keeps_not_Reverse:
  "\<not> Reverse (heap w q) \<Longrightarrow> \<not> Reverse (heap (notifyOne Find cq w) q)"
  by (cases cq) (simp add: notifyOne_def Let_def split: sum.splits)

lemma notifySubscribers_not_Reverse:
  "q \<in> snd ` set kvs \<or> \<not> Reverse (heap w q) \<Longrightarrow>
   \<not> Reverse (heap (notifySubscribers Find kvs w) q)"
proof (induction kvs arbitrary: w)
  case Nil
  then show ?case by simp
next
  case (Cons cq kvs)
  have "q \<in> snd ` set kvs \<or> \<not> Reverse (heap (notifyOne Find cq w) q)"
  proof (cases "q = snd cq")
    case True
    then show ?thesis by (simp add: notifyOne_not_Reverse)
  next
    case False
    with Cons.prems show ?thesis
      using notifyOne_keeps_not_Reverse [of w q Find cq] by auto
  qed
  then show ?case by (simp add: Cons.IH)
qed

lemma notifyOne_cong_not_Reverse:
  "(\<forall>x. \<not> Reverse x \<longrightarrow> Find' x = Find x) \<Longrightarrow> notifyOne Find' cq w = notifyOne Find cq w"
  by (cases cq) (simp add: notifyOne_def Let_def)

lemma notifySubscribers_cong_not_Reverse:
  assumes "\<forall>x. \<not> Reverse x \<longrightarrow> Find' x = Find x"
  shows "notifySubscribers Find' kvs w = notifySubscribers Find kvs w"
proof (induction kvs arbitrary: w)
  case Nil
  show ?case by simp
next
  case (Cons cq kvs)
  have "notifyOne Find' cq w = notifyOne Find cq w"
    using assms by (rule notifyOne_cong_not_Reverse)
  then show ?case by (simp add: Cons.IH)
qed

lemma notifyOne_cursor:
  "SinceUUID (heap (notifyOne Find (c, q) w) q) = spec_cursor Find (heap w q)"
  by (simp add: notifyOne_def spec_cursor_def Let_def last_conv_nth split: sum.splits)

lemma not_backward_refl: "not_backward before a a"
  by (simp add: not_backward_def)

lemma not_backward_trans:
  assumes "transp before" and "not_backward before a b" and "not_backward before b c"
  shows "not_backward before a c"
proof (cases "b = a \<or> c = b")
  case True
  with assms(2,3) show ?thesis by auto
next
  case False
  with assms(2,3) have "before a b" and "before b c"
    by (simp_all add: not_backward_def)
  with assms(1) have "before a c" by (rule transpD)
  then show ?thesis by (simp add: not_backward_def)
qed

lemma not_backward_strict:
  assumes "transp before" and "irreflp before" and "not_backward before a b"
  shows "\<not> before b a"
proof
  assume earlier: "before b a"
  have "before a a"
  proof (cases "b = a")
    case True
    with earlier show ?thesis by simp
  next
    case False
    with assms(3) have "before a b" by (simp add: not_backward_def)
    from assms(1) this earlier show ?thesis by (rule transpD)
  qed
  with assms(2) show False by (simp add: irreflp_def)
qed

lemma find_contractD:
  "find_contract before Find \<Longrightarrow> \<not> Reverse query \<Longrightarrow> Find query = Inr evs \<Longrightarrow>
   sorted_wrt (\<lambda>a b. before (UUID a) (UUID b)) evs \<and>
   (\<forall>e \<in> set evs. before (SinceUUID query) (UUID e))"
  by (simp add: find_contract_def)

lemma notifyOne_not_backward:
  assumes "find_contract before Find"
  shows "not_backward before (SinceUUID (heap w p)) (SinceUUID (heap (notifyOne Find cq w) p))"
proof (cases cq)
  case (Pair c q)
  show ?thesis
  proof (cases "p = q")
    case False
    with Pair show ?thesis
      by (simp add: notifyOne_heap_other not_backward_refl)
  next
    case True
    show ?thesis
    proof (cases "Find ((heap w q)\<lparr>Reverse := False\<rparr>)")
      case (Inl err)
      with Pair True show ?thesis
        by (simp add: notifyOne_cursor spec_cursor_def not_backward_refl)
    next
      case (Inr evs)
      show ?thesis
      proof (cases "evs = []")
        case True
        with Pair \<open>p = q\<close> Inr show ?thesis
          by (simp add: notifyOne_cursor spec_cursor_def not_backward_refl)
      next
        case False
        then have "last evs \<in> set evs" by simp
        moreover have "\<forall>e \<in> set evs.
            before (SinceUUID ((heap w q)\<lparr>Reverse := False\<rparr>)) (UUID e)"
          using find_contractD [OF assms _ Inr] by simp
        ultimately have "before (SinceUUID (heap w q)) (UUID (last evs))"
          by simp
        with Pair \<open>p = q\<close> Inr False show ?thesis
          by (simp add: notifyOne_cursor spec_cursor_def not_backward_def)
      qed
    qed
  qed
qed

lemma notifySubscribers_not_backward:
  assumes "transp before" and "find_contract before Find"
  shows "not_backward before (SinceUUID (heap w p))
           (SinceUUID (heap (notifySubscribers Find kvs w) p))"
proof (induction kvs arbitrary: w)
  case Nil
  show ?case by (simp add: not_backward_refl)
next
  case (Cons cq kvs)
  have "not_backward before (SinceUUID (heap w p)) (SinceUUID (heap (notifyOne Find cq w) p))"
    using assms(2) by (rule notifyOne_not_backward)
  moreover have "not_backward before (SinceUUID (heap (notifyOne Find cq w) p))
      (SinceUUID (heap (notifySubscribers Find kvs (notifyOne Find cq w)) p))"
    by (rule Cons.IH)
  ultimately show ?case
    using assms(1) by (auto intro: not_backward_trans)
qed

lemma notifyPasses_not_backward:
  assumes "transp before"
  shows "(\<forall>pass \<in> set ps. find_contract before (fst pass)) \<Longrightarrow>
         not_backward before (SinceUUID (heap w p)) (SinceUUID (heap (notifyPasses ps w) p))"
proof (induction ps arbitrary: w)
  case Nil
  show ?case by (simp add: not_backward_refl)
next
  case (Cons pass ps)
  then have "find_contract before (fst pass)" by simp
  then have "not_backward before (SinceUUID (heap w p))
      (SinceUUID (heap (notifySubscribers (fst pass) (snd pass) w) p))"
    using assms by (intro notifySubscribers_not_backward)
  moreover have "not_backward before
      (SinceUUID (heap (notifySubscribers (fst pass) (snd pass) w) p))
      (SinceUUID (heap (notifyPasses ps (notifySubscribers (fst pass) (snd pass) w)) p))"
    using Cons.prems by (intro Cons.IH) simp
  ultimately show ?case
    using assms by (auto intro: not_backward_trans)
qed

lemma notifySubscribers_cursor_unshared:
  assumes "distinct (map fst kvs)" and "(c, q) \<in> set kvs"
    and "\<forall>c'. (c', q) \<in> set kvs \<longrightarrow> c' = c"
  shows "SinceUUID (heap (notifySubscribers Find kvs w) q) = spec_cursor Find (heap w q)"
  using assms
proof (induction kvs arbitrary: w)
  case Nil
  then show ?case by simp
next
  case (Cons cq kvs)
  obtain c0 q0 where cq: "cq = (c0, q0)" by (cases cq)
  from Cons.prems(1) cq have fresh: "c0 \<notin> fst ` set kvs" and dist: "distinct (map fst kvs)"
    by simp_all
  from Cons.prems(3) have only: "\<forall>c'. (c', q) \<in> set kvs \<longrightarrow> c' = c"
    by simp
  show ?case
  proof (cases "q0 = q")
    case True
    from Cons.prems(3) cq True have "c0 = c" by simp
    have "q \<notin> snd ` set kvs"
    proof
      assume "q \<in> snd ` set kvs"
      then obtain c' where mem: "(c', q) \<in> set kvs" by force
      with only have "c' = c" by simp
      with mem have "c \<in> fst ` set kvs" by force
      with fresh \<open>c0 = c\<close> show False by simp
    qed
    then have "heap (notifySubscribers Find kvs (notifyOne Find (c0, q) w)) q =
        heap (notifyOne Find (c0, q) w) q"
      by (rule notifySubscribers_heap_other)
    then have "SinceUUID (heap (notifySubscribers Find kvs (notifyOne Find (c0, q) w)) q) =
        spec_cursor Find (heap w q)"
      by (simp only: notifyOne_cursor)
    with cq True show ?thesis by simp
  next
    case False
    with Cons.prems(2) cq have mem: "(c, q) \<in> set kvs" by simp
    have "SinceUUID (heap (notifySubscribers Find kvs (notifyOne Find cq w)) q) =
        spec_cursor Find (heap (notifyOne Find cq w) q)"
      using dist mem only by (rule Cons.IH)
    moreover from False cq have "heap (notifyOne Find cq w) q = heap w q"
      by (simp add: notifyOne_heap_other)
    ultimately show ?thesis by simp
  qed
qed

lemma sorted_wrt_last:
  "sorted_wrt P xs \<Longrightarrow> x \<in> set xs \<Longrightarrow> x = last xs \<or> P x (last xs)"
proof (induction xs)
  case Nil
  then show ?case by simp
next
  case (Cons a xs)
  show ?case
  proof (cases "xs = []")
    case True
    with Cons.prems show ?thesis by simp
  next
    case False
    then have "last xs \<in> set xs" by simp
    with Cons False show ?thesis by auto
  qed
qed

lemma ex_before_order: "transp ex_before \<and> irreflp ex_before"
  by (auto simp: ex_before_def transp_def irreflp_def)

lemma ex_log_sorted: "sorted_wrt (\<lambda>a b. ex_before (UUID a) (UUID b)) ex_log"
  by (simp add: ex_log_def ex_before_def ex_rank_def)

lemma ex_find_contract: "find_contract ex_before ex_find"
  unfolding find_contract_def
proof (intro allI impI)
  fix q evs
  assume "\<not> Reverse q" and "ex_find q = Inr evs"
  then have evs: "evs = filter (ex_after (SinceUUID q)) ex_log"
    by (simp add: ex_find_def)
  have "sorted_wrt (\<lambda>a b. ex_before (UUID a) (UUID b)) evs"
    unfolding evs using ex_log_sorted by (rule sorted_wrt_filter)
  moreover have "\<forall>e \<in> set evs. ex_before (SinceUUID q) (UUID e)"
    unfolding evs by (simp add: ex_after_def)
  ultimately show "sorted_wrt (\<lambda>a b. ex_before (UUID a) (UUID b)) evs \<and>
      (\<forall>e \<in> set evs. ex_before (SinceUUID q) (UUID e))" ..
qed

lemma not_backward_then_before:
  assumes "transp before" and "not_backward before a b" and "before b c"
  shows "before a c"
proof (cases "b = a")
  case True
  with assms(3) show ?thesis by simp
next
  case False
  with assms(2) have "before a b" by (simp add: not_backward_def)
  from assms(1) this assms(3) show ?thesis by (rule transpD)
qed

lemma ex_log_later_sorted: "sorted_wrt (\<lambda>a b. ex_before (UUID a) (UUID b)) ex_log_later"
  by (simp add: ex_log_later_def ex_log_def ex_before_def ex_rank_def)

lemma ex_find_later_contract: "find_contract ex_before ex_find_later"
  unfolding find_contract_def
proof (intro allI impI)
  fix q evs
  assume "\<not> Reverse q" and "ex_find_later q = Inr evs"
  then have evs: "evs = filter (ex_after (SinceUUID q)) ex_log_later"
    by (simp add: ex_find_later_def)
  have "sorted_wrt (\<lambda>a b. ex_before (UUID a) (UUID b)) evs"
    unfolding evs using ex_log_later_sorted by (rule sorted_wrt_filter)
  moreover have "\<forall>e \<in> set evs. ex_before (SinceUUID q) (UUID e)"
    unfolding evs by (simp add: ex_after_def)
  ultimately show "sorted_wrt (\<lambda>a b. ex_before (UUID a) (UUID b)) evs \<and>
      (\<forall>e \<in> set evs. ex_before (SinceUUID q) (UUID e))" ..
qed

lemma batch_after_cursor_is_new:
  assumes order: "transp before" "irreflp before"
    and sorted: "sorted_wrt (\<lambda>a b. before (UUID a) (UUID b)) evs"
    and cursor: "SinceUUID (heap w1 q) = UUID (last evs)"
    and passes: "\<forall>pass \<in> set ps. find_contract before (fst pass)"
    and later: "find_contract before Find'"
      "Find' ((heap (notifyPasses ps w1) q)\<lparr>Reverse := False\<rparr>) = Inr evs'"
    and mem: "e \<in> set evs" "e' \<in> set evs'"
  shows "UUID e' \<noteq> UUID e"
proof
  assume same: "UUID e' = UUID e"
  define w2 where "w2 = notifyPasses ps w1"
  from sorted have "e = last evs \<or> before (UUID e) (UUID (last evs))"
    using mem(1) by (rule sorted_wrt_last)
  then have step1: "not_backward before (UUID e) (UUID (last evs))"
    unfolding not_backward_def by (elim disjE) simp_all
  have "not_backward before (SinceUUID (heap w1 q)) (SinceUUID (heap w2 q))"
    unfolding w2_def using order(1) passes by (rule notifyPasses_not_backward)
  then have step2: "not_backward before (UUID (last evs)) (SinceUUID (heap w2 q))"
    unfolding cursor .
  from order(1) step1 step2 have upto: "not_backward before (UUID e) (SinceUUID (heap w2 q))"
    by (rule not_backward_trans)
  have "\<not> Reverse ((heap w2 q)\<lparr>Reverse := False\<rparr>)" by simp
  moreover have "Find' ((heap w2 q)\<lparr>Reverse := False\<rparr>) = Inr evs'"
    unfolding w2_def by (rule later(2))
  ultimately have "\<forall>x \<in> set evs'. before (SinceUUID ((heap w2 q)\<lparr>Reverse := False\<rparr>)) (UUID x)"
    using find_contractD [OF later(1)] by blast
  then have "before (SinceUUID ((heap w2 q)\<lparr>Reverse := False\<rparr>)) (UUID e')"
    using mem(2) by (rule bspec)
  then have "before (SinceUUID (heap w2 q)) (UUID e')" by simp
  with order(1) upto have "before (UUID e) (UUID e')"
    by (rule not_backward_then_before)
  then have "before (UUID e) (UUID e)" unfolding same .
  with order(2) show False by (simp add: irreflp_def)
qed

lemma batch_sorted:
  assumes "find_contract before Find" and "Find (query\<lparr>Reverse := False\<rparr>) = Inr evs"
  shows "sorted_wrt (\<lambda>a b. before (UUID a) (UUID b)) evs"
proof -
  have "\<not> Reverse (query\<lparr>Reverse := False\<rparr>)" by simp
  note batch = find_contractD [OF assms(1) this assms(2)]
  from batch show ?thesis ..
qed

lemma later_batch_is_new:
  assumes order: "transp before" "irreflp before"
    and first: "find_contract before Find" "Find ((heap w q)\<lparr>Reverse := False\<rparr>) = Inr evs"
      "evs \<noteq> []"
    and passes: "\<forall>pass \<in> set ps. find_contract before (fst pass)"
    and later: "find_contract before Find'"
      "Find' ((heap (notifyPasses ps (notifyOne Find (c, q) w)) q)\<lparr>Reverse := False\<rparr>) = Inr evs'"
    and mem: "e \<in> set evs" "e' \<in> set evs'"
  shows "UUID e' \<noteq> UUID e"
proof -
  have cursor: "SinceUUID (heap (notifyOne Find (c, q) w) q) = UUID (last evs)"
    using first(2,3) by (simp add: notifyOne_cursor spec_cursor_def)
  have sorted: "sorted_wrt (\<lambda>a b. before (UUID a) (UUID b)) evs"
    using first(1,2) by (rule batch_sorted)
  from order sorted cursor passes later mem show ?thesis
    by (rule batch_after_cursor_is_new)
qed

lemma notifyOne_chans_self:
  "chans (notifyOne Find (c, q) w) c =
     (case Find ((heap w q)\<lparr>Reverse := False\<rparr>) of
        Inl err \<Rightarrow> chans w c
      | Inr evs \<Rightarrow> sendEvents evs (chans w c))"
  by (simp add: notifyOne_def Let_def split: sum.splits)

lemma notifySubscribers_chans_unshared:
  assumes "distinct (map fst kvs)" and "(c, q) \<in> set kvs"
    and "\<forall>c'. (c', q) \<in> set kvs \<longrightarrow> c' = c"
  shows "chans (notifySubscribers Find kvs w) c =
     (case Find ((heap w q)\<lparr>Reverse := False\<rparr>) of
        Inl err \<Rightarrow> chans w c
      | Inr evs \<Rightarrow> sendEvents evs (chans w c))"
  using assms
proof (induction kvs arbitrary: w)
  case Nil
  then show ?case by simp
next
  case (Cons cq kvs)
  obtain c0 q0 where cq: "cq = (c0, q0)" by (cases cq)
  from Cons.prems(1) cq have fresh: "c0 \<notin> fst ` set kvs" and dist: "distinct (map fst kvs)"
    by simp_all
  from Cons.prems(3) have only: "\<forall>c'. (c', q) \<in> set kvs \<longrightarrow> c' = c"
    by simp
  show ?case
  proof (cases "q0 = q")
    case True
    from Cons.prems(3) cq True have "c0 = c" by simp
    with fresh have "c \<notin> fst ` set kvs" by simp
    then have "chans (notifySubscribers Find kvs (notifyOne Find (c, q) w)) c =
        chans (notifyOne Find (c, q) w) c"
      by (rule notifySubscribers_chans_other)
    then have "chans (notifySubscribers Find kvs (notifyOne Find (c, q) w)) c =
        (case Find ((heap w q)\<lparr>Reverse := False\<rparr>) of
           Inl err \<Rightarrow> chans w c
         | Inr evs \<Rightarrow> sendEvents evs (chans w c))"
      by (simp only: notifyOne_chans_self)
    with cq True \<open>c0 = c\<close> show ?thesis by simp
  next
    case False
    with Cons.prems(2) cq have mem: "(c, q) \<in> set kvs" by simp
    then have "c \<in> fst ` set kvs" by force
    with fresh have "c \<noteq> c0" by auto
    have "chans (notifySubscribers Find kvs (notifyOne Find cq w)) c =
        (case Find ((heap (notifyOne Find cq w) q)\<lparr>Reverse := False\<rparr>) of
           Inl err \<Rightarrow> chans (notifyOne Find cq w) c
         | Inr evs \<Rightarrow> sendEvents evs (chans (notifyOne Find cq w) c))"
      using dist mem only by (rule Cons.IH)
    moreover from False cq have "heap (notifyOne Find cq w) q = heap w q"
      by (simp add: notifyOne_heap_other)
    moreover from \<open>c \<noteq> c0\<close> cq have "chans (notifyOne Find cq w) c = chans w c"
      by (simp add: notifyOne_chans_other)
    ultimately show ?thesis by (simp split: sum.splits)
  qed
qed

lemma notifyPasses_subscribers:
  "subscribers (notifyPasses ps w) = subscribers w"
  by (induction ps arbitrary: w) simp_all

lemma entries_notifyPasses:
  "entries (notifyPasses ps (notifySubscribers Find kvs w)) = entries w"
  by (simp add: entries_def notifyPasses_subscribers)

lemma range_order_unshared:
  assumes "range_order (entries w) kvs" and "entries w c = Some q"
    and "\<forall>c'. entries w c' = Some q \<longrightarrow> c' = c"
  shows "distinct (map fst kvs) \<and> (c, q) \<in> set kvs \<and> (\<forall>c'. (c', q) \<in> set kvs \<longrightarrow> c' = c)"
proof (intro conjI)
  show "distinct (map fst kvs)"
    using assms(1) by (simp add: range_order_def)
  show "(c, q) \<in> set kvs"
    using assms(1,2) by (simp add: range_order_mem)
  show "\<forall>c'. (c', q) \<in> set kvs \<longrightarrow> c' = c"
    using assms(1,3) by (simp add: range_order_mem)
qed

lemma fst_HandleRead:
  "fst (HandleRead Find now_since now_until format fmt_time tmpl query) = defaultWindow now_since now_until query"
  by (simp add: HandleRead_def Let_def split: sum.splits)

lemma HandleRead_page:
  "Find (defaultWindow now_since now_until query) = Inr evs \<Longrightarrow>
   HandleRead Find now_since now_until format fmt_time (Inr execute) query =
     (defaultWindow now_since now_until query,
      case execute (rsp format fmt_time (defaultWindow now_since now_until query) evs) of
        Inl err \<Rightarrow> ([err], WriteJSON err)
      | Inr bytes \<Rightarrow> ([], Write bytes))"
  by (simp add: HandleRead_def Let_def split: sum.splits)

lemma HandleRead_cong:
  "Find' (defaultWindow now_since now_until query) = Find (defaultWindow now_since now_until query) \<Longrightarrow>
   HandleRead Find' now_since now_until format fmt_time tmpl query =
   HandleRead Find now_since now_until format fmt_time tmpl query"
  by (simp add: HandleRead_def Let_def)

lemma defaultWindow_fields:
  "SinceTime (defaultWindow now_since now_until query) =
     (if SinceTime query = 0 then now_since - 3600000000000 else SinceTime query) \<and>
   UntilTime (defaultWindow now_since now_until query) =
     (if UntilTime query = 0 then now_until else UntilTime query) \<and>
   Services (defaultWindow now_since now_until query) = Services query \<and>
   Severity (defaultWindow now_since now_until query) = Severity query \<and>
   SinceUUID (defaultWindow now_since now_until query) = SinceUUID query \<and>
   Reverse (defaultWindow now_since now_until query) = Reverse query"
  by (simp add: defaultWindow_def IsZero_def Add_def Hour_def Let_def)

lemma lastUUID_nonempty:
  "evs \<noteq> [] \<Longrightarrow> lastUUID query evs = (if Reverse query then UUID (hd evs) else UUID (last evs))"
  by (simp add: lastUUID_def hd_conv_nth last_conv_nth)

lemma parseQuery_SinceUUID:
  "parseQuery parse body = Inr live \<Longrightarrow> SinceUUID live = body_SinceUUID body"
  by (auto simp: parseQuery_def Let_def split: sum.splits if_splits)

section \<open>The claims\<close>

text \<open>
  C9. \<^verbatim>\<open>Unsubscribe\<close> is idempotent: it removes the entry of the channel if there is
  one and changes nothing otherwise, so a second call, or a call for a channel that was
  never subscribed, leaves the registry as it was. It returns nothing (it cannot fail),
  and it touches no channel and no query.
\<close>

theorem Unsubscribe_idempotent:
  "Unsubscribe c (Unsubscribe c w) = Unsubscribe c w \<and>
   (c \<notin> dom (entries w) \<longrightarrow> Unsubscribe c w = w) \<and>
   entries (Unsubscribe c w) = (entries w)(c := None) \<and>
   chans (Unsubscribe c w) = chans w \<and> heap (Unsubscribe c w) = heap w \<and>
   slog (Unsubscribe c w) = slog w"
proof -
  have "c \<notin> dom (entries (Unsubscribe c w))"
    by (simp add: entries_Unsubscribe)
  then have "Unsubscribe c (Unsubscribe c w) = Unsubscribe c w"
    by (rule Unsubscribe_absent)
  moreover have "chans (Unsubscribe c w) = chans w" "heap (Unsubscribe c w) = heap w"
    "slog (Unsubscribe c w) = slog w"
    by (simp_all add: Unsubscribe_def)
  ultimately show ?thesis
    using Unsubscribe_absent [of c w] entries_Unsubscribe [of c w] by blast
qed

theorem Unsubscribe_idempotent_witness:
  "3 \<notin> dom (entries ex_world) \<and> Unsubscribe 3 ex_world = ex_world \<and>
   Unsubscribe 1 (Unsubscribe 1 ex_world) = Unsubscribe 1 ex_world \<and>
   entries (Unsubscribe 1 ex_world) 1 = None \<and>
   entries (Unsubscribe 1 ex_world) 2 = Some 12"
proof -
  have absent: "3 \<notin> dom (entries ex_world)"
    by (simp add: entries_def ex_world_def dom_def)
  have "entries (Unsubscribe 1 ex_world) = (entries ex_world)(1 := None)"
    using Unsubscribe_idempotent [of 1 ex_world] by blast
  then have "entries (Unsubscribe 1 ex_world) 1 = None"
    and "entries (Unsubscribe 1 ex_world) 2 = Some 12"
    by (simp_all add: entries_def ex_world_def)
  then show ?thesis
    using absent Unsubscribe_idempotent [of 3 ex_world] Unsubscribe_idempotent [of 1 ex_world]
    by blast
qed

text \<open>
  C1, as the code has it. For a query without a cursor, \<^verbatim>\<open>Subscribe\<close> returns the
  error built by \<^verbatim>\<open>errors.InternalService\<close> and changes nothing: the registry, the
  queries and the channels are as before. If the channel had no entry before the call,
  a notify pass that follows, whatever the storage engine answers and in whatever order
  the entries are visited, leaves the channel as it was: nothing is delivered to it.
\<close>

theorem Subscribe_rejects_empty_cursor:
  assumes "SinceUUID (heap w q) = ''''"
  shows "Subscribe c q w =
           (Some (InternalService ''SinceUUID not set in subscriber query''), w) \<and>
         (c \<notin> dom (entries w) \<longrightarrow> range_order (entries w) kvs \<longrightarrow>
            chans (notifySubscribers Find kvs (snd (Subscribe c q w))) c = chans w c)"
proof -
  have rejected: "Subscribe c q w =
      (Some (InternalService ''SinceUUID not set in subscriber query''), w)"
    using assms by (rule Subscribe_empty)
  have "chans (notifySubscribers Find kvs w) c = chans w c"
    if "c \<notin> dom (entries w)" and "range_order (entries w) kvs"
  proof -
    from that have "c \<notin> fst ` set kvs"
      using range_order_dom [of "entries w" kvs] by simp
    then show ?thesis by (rule notifySubscribers_chans_other)
  qed
  with rejected show ?thesis by simp
qed

lemma ex_range_order: "range_order (entries ex_world) ex_order"
  by (simp add: range_order_def entries_def ex_world_def ex_order_def)

theorem Subscribe_rejects_empty_cursor_witness:
  "SinceUUID (heap ex_world 11) = '''' \<and> 3 \<notin> dom (entries ex_world) \<and>
   range_order (entries ex_world) ex_order \<and>
   Subscribe 3 11 ex_world =
     (Some (InternalService ''SinceUUID not set in subscriber query''), ex_world) \<and>
   chans (notifySubscribers ex_find ex_order (snd (Subscribe 3 11 ex_world))) 3 =
     chans ex_world 3"
proof -
  have empty: "SinceUUID (heap ex_world 11) = ''''"
    by (simp add: ex_world_def ex_heap_def ex_query_def)
  have absent: "3 \<notin> dom (entries ex_world)"
    by (simp add: entries_def ex_world_def dom_def)
  show ?thesis
    using empty absent ex_range_order
      Subscribe_rejects_empty_cursor [OF empty, of 3 ex_order ex_find]
    by blast
qed

text \<open>
  C1 as it is stated fails. Channel 1 is subscribed with the query at address 10. A
  second \<^verbatim>\<open>Subscribe\<close> of channel 1, with the query at address 11 that has no
  cursor, returns the internal-service error (not an invalid-argument one) and adds
  nothing, and yet the notify pass that follows delivers the event \<open>u2\<close> to channel 1.
\<close>

theorem Subscribe_rejects_empty_cursor_counterexample:
  "SinceUUID (heap ex_world 11) = '''' \<and>
   fst (Subscribe 1 11 ex_world) =
     Some (InternalService ''SinceUUID not set in subscriber query'') \<and>
   range_order (entries (snd (Subscribe 1 11 ex_world))) ex_order \<and>
   buf (chans ex_world 1) = [] \<and>
   buf (chans (notifySubscribers ex_find ex_order (snd (Subscribe 1 11 ex_world))) 1) =
     [\<lparr>UUID = ''u2''\<rparr>]"
proof -
  have empty: "SinceUUID (heap ex_world 11) = ''''"
    by (simp add: ex_world_def ex_heap_def ex_query_def)
  have same: "Subscribe 1 11 ex_world =
      (Some (InternalService ''SinceUUID not set in subscriber query''), ex_world)"
    using empty by (rule Subscribe_empty)
  have before_pass: "buf (chans ex_world 1) = []"
    by (simp add: ex_world_def ex_chans_def)
  have "buf (chans (notifySubscribers ex_find ex_order ex_world) 1) = [\<lparr>UUID = ''u2''\<rparr>]"
    by (simp add: ex_order_def ex_world_def ex_heap_def ex_chans_def ex_query_def
        ex_find_def ex_log_def ex_after_def ex_before_def ex_rank_def notifyOne_def
        trySend_def Let_def)
  with empty same before_pass ex_range_order show ?thesis by simp
qed

text \<open>
  C4. The send of a notify pass does not block. On a channel whose buffer is full it
  changes nothing: the event is dropped. A batch fills the room that is left, in order,
  and the rest of it is dropped. A pass over subscribers whose channels are all full
  leaves every channel as it was, and what a pass does to the queries does not depend
  on the channels at all: it visits every subscriber whatever the state of the buffers.
\<close>

theorem send_is_non_blocking:
  "(cap ch \<le> length (buf ch) \<longrightarrow> trySend e ch = ch \<and> sendEvents evs ch = ch) \<and>
   (length (buf ch) < cap ch \<longrightarrow> buf (trySend e ch) = buf ch @ [e]) \<and>
   buf (sendEvents evs ch) = buf ch @ take (cap ch - length (buf ch)) evs \<and>
   cap (sendEvents evs ch) = cap ch \<and>
   ((\<forall>c \<in> fst ` set kvs. cap (chans w c) \<le> length (buf (chans w c))) \<longrightarrow>
      chans (notifySubscribers Find kvs w) = chans w) \<and>
   heap (notifySubscribers Find kvs (w\<lparr>chans := cs\<rparr>)) = heap (notifySubscribers Find kvs w)"
proof -
  have "cap ch \<le> length (buf ch) \<longrightarrow> trySend e ch = ch \<and> sendEvents evs ch = ch"
    by (simp add: trySend_def sendEvents_full)
  moreover have "length (buf ch) < cap ch \<longrightarrow> buf (trySend e ch) = buf ch @ [e]"
    by (simp add: trySend_def)
  moreover note sendEvents_buf [of evs ch] sendEvents_cap [of evs ch]
    notifySubscribers_chans_full [where kvs = kvs and w = w and Find = Find]
    notifySubscribers_heap_chans [where kvs = kvs and w = w and Find = Find and cs = cs]
  ultimately show ?thesis by blast
qed

theorem send_is_non_blocking_witness:
  "cap (ex_chans 2) \<le> length (buf (ex_chans 2)) \<and>
   trySend \<lparr>UUID = ''u4''\<rparr> (ex_chans 2) = ex_chans 2 \<and>
   length (buf (ex_chans 1)) < cap (ex_chans 1) \<and>
   buf (trySend \<lparr>UUID = ''u4''\<rparr> (ex_chans 1)) = [\<lparr>UUID = ''u4''\<rparr>] \<and>
   buf (sendEvents ex_log (ex_chans 1)) = [\<lparr>UUID = ''u1''\<rparr>] \<and>
   chans (notifySubscribers ex_find [(2, 12)] ex_world) = chans ex_world \<and>
   SinceUUID (heap (notifySubscribers ex_find [(2, 12)] ex_world) 12) = ''u4''"
proof -
  have full: "cap (ex_chans 2) \<le> length (buf (ex_chans 2))"
    and room: "length (buf (ex_chans 1)) < cap (ex_chans 1)"
    by (simp_all add: ex_chans_def)
  have all_full: "\<forall>c \<in> fst ` set [(2::nat, 12::nat)].
      cap (chans ex_world c) \<le> length (buf (chans ex_world c))"
    by (simp add: ex_world_def ex_chans_def)
  have cursor: "SinceUUID (heap (notifySubscribers ex_find [(2, 12)] ex_world) 12) = ''u4''"
    by (simp add: ex_world_def ex_heap_def ex_chans_def ex_query_def
        ex_find_def ex_log_def ex_after_def ex_before_def ex_rank_def notifyOne_def Let_def)
  have "buf (ex_chans 1) = []" "cap (ex_chans 1) = 1"
    by (simp_all add: ex_chans_def)
  then show ?thesis
    using full room all_full cursor
      send_is_non_blocking [where ch = "ex_chans 2" and e = "\<lparr>UUID = ''u4''\<rparr>"
        and evs = ex_log and kvs = "[(2, 12)]" and w = ex_world and Find = ex_find
        and cs = "chans ex_world"]
      send_is_non_blocking [where ch = "ex_chans 1" and e = "\<lparr>UUID = ''u4''\<rparr>"
        and evs = ex_log and kvs = "[]" and w = ex_world and Find = ex_find
        and cs = "chans ex_world"]
    by (simp add: ex_log_def)
qed

text \<open>
  C5. When the storage query of a subscriber fails, the turn of that subscriber only
  forces its query to oldest-first and logs the error: the subscriber stays registered,
  its cursor and its channel are untouched, and the pass goes on with the next
  subscriber. No pass ever removes a subscriber.
\<close>

theorem query_error_keeps_subscriber:
  assumes "Find ((heap w q)\<lparr>Reverse := False\<rparr>) = Inl err"
  shows "subscribers (notifyOne Find (c, q) w) = subscribers w \<and>
         SinceUUID (heap (notifyOne Find (c, q) w) q) = SinceUUID (heap w q) \<and>
         heap (notifyOne Find (c, q) w) = (heap w)(q := (heap w q)\<lparr>Reverse := False\<rparr>) \<and>
         chans (notifyOne Find (c, q) w) = chans w \<and>
         slog (notifyOne Find (c, q) w) = slog w @ [err] \<and>
         notifySubscribers Find ((c, q) # kvs) w =
           notifySubscribers Find kvs (notifyOne Find (c, q) w) \<and>
         subscribers (notifySubscribers Find ((c, q) # kvs) w) = subscribers w"
  using notifyOne_Inl [where Find = Find and c = c, OF assms] by simp

theorem query_error_keeps_subscriber_witness:
  "ex_find_failing ((heap ex_world 10)\<lparr>Reverse := False\<rparr>) = Inl (Foreign ''storage'') \<and>
   entries (notifyOne ex_find_failing (1, 10) ex_world) 1 = Some 10 \<and>
   SinceUUID (heap (notifyOne ex_find_failing (1, 10) ex_world) 10) = ''u1'' \<and>
   buf (chans (notifyOne ex_find_failing (1, 10) ex_world) 1) = [] \<and>
   entries (notifySubscribers ex_find_failing ex_order ex_world) 2 = Some 12"
proof -
  have fails: "ex_find_failing ((heap ex_world 10)\<lparr>Reverse := False\<rparr>) = Inl (Foreign ''storage'')"
    by (simp add: ex_find_failing_def)
  have "subscribers (notifySubscribers ex_find_failing ex_order ex_world) =
      subscribers (notifySubscribers ex_find_failing ((1, 10) # [(2, 12)]) ex_world)"
    by (simp add: ex_order_def)
  then show ?thesis
    using fails query_error_keeps_subscriber
      [where Find = ex_find_failing and c = 1 and kvs = "[(2, 12)]", OF fails]
    by (simp add: entries_def ex_world_def ex_heap_def ex_query_def ex_chans_def)
qed

text \<open>
  C6. After a notify pass, the query of every subscriber of the registry is
  oldest-first, whatever its direction was when it was subscribed. The direction is
  forced before the storage engine is asked: a pass never hands a reversed query to it,
  so what the engine would answer to reversed queries has no effect on the pass.
\<close>

theorem pass_normalizes_direction:
  assumes "range_order (entries w) kvs" and "entries w c = Some q"
  shows "\<not> Reverse (heap (notifySubscribers Find kvs w) q) \<and>
         entries (notifySubscribers Find kvs w) c = Some q \<and>
         ((\<forall>x. \<not> Reverse x \<longrightarrow> Find' x = Find x) \<longrightarrow>
            notifySubscribers Find' kvs w = notifySubscribers Find kvs w)"
proof -
  from assms have "(c, q) \<in> set kvs"
    by (simp add: range_order_mem)
  then have "q \<in> snd ` set kvs" by force
  then have "\<not> Reverse (heap (notifySubscribers Find kvs w) q)"
    by (simp add: notifySubscribers_not_Reverse)
  moreover have "entries (notifySubscribers Find kvs w) c = Some q"
    using assms(2) by (simp add: entries_def)
  ultimately show ?thesis
    using notifySubscribers_cong_not_Reverse [of Find' Find kvs w] by blast
qed

theorem pass_normalizes_direction_witness:
  "range_order (entries ex_world) ex_order \<and> entries ex_world 1 = Some 10 \<and>
   Reverse (heap ex_world 10) \<and>
   \<not> Reverse (heap (notifySubscribers ex_find ex_order ex_world) 10)"
proof -
  have entry: "entries ex_world 1 = Some 10"
    by (simp add: entries_def ex_world_def)
  have "Reverse (heap ex_world 10)"
    by (simp add: ex_world_def ex_heap_def ex_query_def)
  then show ?thesis
    using entry ex_range_order pass_normalizes_direction [where Find = ex_find, OF ex_range_order entry]
    by blast
qed

text \<open>
  C3. Cursor monotonicity. The turn of a subscriber in a pass leaves its cursor as the
  specification says: unchanged when the storage engine fails or finds nothing, the UUID
  of the last event of the result otherwise; and so does the whole pass for every
  subscriber of the registry whose query object no other subscriber shares. When the
  storage engine keeps its contract in every pass (the order of assignment of UUIDs
  being transitive and irreflexive), then over any run of passes the cursor of every
  query is where it was or later, and never earlier.
\<close>

theorem cursor_monotonicity:
  assumes "transp before" and "irreflp before"
    and "\<forall>pass \<in> set ps. find_contract before (fst pass)"
  shows "not_backward before (SinceUUID (heap w p)) (SinceUUID (heap (notifyPasses ps w) p)) \<and>
         \<not> before (SinceUUID (heap (notifyPasses ps w) p)) (SinceUUID (heap w p)) \<and>
         SinceUUID (heap (notifyOne Find (c, q) w) q) = spec_cursor Find (heap w q) \<and>
         (range_order (entries w) kvs \<longrightarrow> entries w c = Some q \<longrightarrow>
          (\<forall>c'. entries w c' = Some q \<longrightarrow> c' = c) \<longrightarrow>
            SinceUUID (heap (notifySubscribers Find kvs w) q) = spec_cursor Find (heap w q))"
proof -
  have mono: "not_backward before (SinceUUID (heap w p))
      (SinceUUID (heap (notifyPasses ps w) p))"
    using assms(1,3) by (rule notifyPasses_not_backward)
  then have "\<not> before (SinceUUID (heap (notifyPasses ps w) p)) (SinceUUID (heap w p))"
    using assms(1,2) by (intro not_backward_strict)
  moreover have "SinceUUID (heap (notifySubscribers Find kvs w) q) = spec_cursor Find (heap w q)"
    if "range_order (entries w) kvs" and "entries w c = Some q"
      and "\<forall>c'. entries w c' = Some q \<longrightarrow> c' = c"
  proof (rule notifySubscribers_cursor_unshared)
    show "distinct (map fst kvs)"
      using that(1) by (simp add: range_order_def)
    show "(c, q) \<in> set kvs"
      using that(1,2) by (simp add: range_order_mem)
    show "\<forall>c'. (c', q) \<in> set kvs \<longrightarrow> c' = c"
      using that(1,3) by (simp add: range_order_mem)
  qed
  ultimately show ?thesis
    using mono notifyOne_cursor [of Find c q w] by blast
qed

theorem cursor_monotonicity_witness:
  "transp ex_before \<and> irreflp ex_before \<and>
   range_order (entries ex_world) ex_order \<and> entries ex_world 1 = Some 10 \<and>
   SinceUUID (heap ex_world 10) = ''u1'' \<and>
   spec_cursor ex_find (heap ex_world 10) = ''u4'' \<and>
   SinceUUID (heap (notifySubscribers ex_find ex_order ex_world) 10) = ''u4'' \<and>
   \<not> ex_before
       (SinceUUID (heap (notifyPasses [(ex_find, ex_order), (ex_find, ex_order)] ex_world) 10))
       ''u1''"
proof -
  have contract: "\<forall>pass \<in> set [(ex_find, ex_order), (ex_find, ex_order)].
      find_contract ex_before (fst pass)"
    by (simp add: ex_find_contract)
  have entry: "entries ex_world 1 = Some 10"
    by (simp add: entries_def ex_world_def)
  have unshared: "\<forall>c'. entries ex_world c' = Some 10 \<longrightarrow> c' = 1"
    by (simp add: entries_def ex_world_def)
  have start: "SinceUUID (heap ex_world 10) = ''u1''"
    by (simp add: ex_world_def ex_heap_def ex_query_def)
  have expected: "spec_cursor ex_find (heap ex_world 10) = ''u4''"
    by (simp add: spec_cursor_def ex_world_def ex_heap_def ex_query_def ex_find_def
        ex_log_def ex_after_def ex_before_def ex_rank_def)
  have order: "transp ex_before" "irreflp ex_before"
    using ex_before_order by simp_all
  note facts = cursor_monotonicity [where before = ex_before
      and ps = "[(ex_find, ex_order), (ex_find, ex_order)]" and w = ex_world and p = 10
      and Find = ex_find and c = 1 and q = 10 and kvs = ex_order, OF order contract]
  have "\<not> ex_before
      (SinceUUID (heap (notifyPasses [(ex_find, ex_order), (ex_find, ex_order)] ex_world) 10))
      (SinceUUID (heap ex_world 10))"
    by (rule facts [THEN conjunct2, THEN conjunct1])
  then have never_back: "\<not> ex_before
      (SinceUUID (heap (notifyPasses [(ex_find, ex_order), (ex_find, ex_order)] ex_world) 10))
      ''u1''"
    unfolding start .
  have "SinceUUID (heap (notifySubscribers ex_find ex_order ex_world) 10) =
      spec_cursor ex_find (heap ex_world 10)"
    by (rule facts [THEN conjunct2, THEN conjunct2, THEN conjunct2, THEN mp, THEN mp,
          THEN mp, OF ex_range_order entry unshared])
  then have after_pass: "SinceUUID (heap (notifySubscribers ex_find ex_order ex_world) 10) = ''u4''"
    unfolding expected .
  show ?thesis
    by (intro conjI)
      (rule order ex_range_order entry start expected after_pass never_back)+
qed

text \<open>
  C2. When the storage query of a subscriber returns events, the cursor of that subscriber
  is set to the UUID of the last event of the batch, whatever room its channel has: the
  channel takes the events that fit and the others are dropped, and a full channel takes
  none. This holds for the turn of the subscriber and for the whole notify pass over a
  registry in which the subscriber is registered (with a query object of its own).
  The dropped events are not delivered later: when the storage engine keeps its
  contract, no batch that a later query of this subscriber returns, after any number of
  passes, contains an event with the UUID of an event of this batch, and what a later
  pass puts into the channel, however far the channel was drained in between, is taken
  from that later batch only.
\<close>

theorem cursor_advances_past_dropped_events:
  assumes "Find ((heap w q)\<lparr>Reverse := False\<rparr>) = Inr evs" and "evs \<noteq> []"
  shows "SinceUUID (heap (notifyOne Find (c, q) w) q) = UUID (last evs) \<and>
         buf (chans (notifyOne Find (c, q) w) c) =
           buf (chans w c) @ take (cap (chans w c) - length (buf (chans w c))) evs \<and>
         (cap (chans w c) \<le> length (buf (chans w c)) \<longrightarrow>
            chans (notifyOne Find (c, q) w) = chans w) \<and>
         (transp before \<longrightarrow> irreflp before \<longrightarrow> find_contract before Find \<longrightarrow>
          (\<forall>pass \<in> set ps. find_contract before (fst pass)) \<longrightarrow>
          find_contract before Find' \<longrightarrow>
          Find' ((heap (notifyPasses ps (notifyOne Find (c, q) w)) q)\<lparr>Reverse := False\<rparr>) =
            Inr evs' \<longrightarrow>
          (\<forall>e \<in> set evs. \<forall>e' \<in> set evs'. UUID e' \<noteq> UUID e)) \<and>
         (range_order (entries w) kvs \<longrightarrow> entries w c = Some q \<longrightarrow>
          (\<forall>c'. entries w c' = Some q \<longrightarrow> c' = c) \<longrightarrow>
            SinceUUID (heap (notifySubscribers Find kvs w) q) = UUID (last evs) \<and>
            buf (chans (notifySubscribers Find kvs w) c) =
              buf (chans w c) @ take (cap (chans w c) - length (buf (chans w c))) evs \<and>
            (cap (chans w c) \<le> length (buf (chans w c)) \<longrightarrow>
               chans (notifySubscribers Find kvs w) c = chans w c) \<and>
            (transp before \<longrightarrow> irreflp before \<longrightarrow> find_contract before Find \<longrightarrow>
             (\<forall>pass \<in> set ps. find_contract before (fst pass)) \<longrightarrow>
             find_contract before Find' \<longrightarrow> range_order (entries w) kvs' \<longrightarrow>
             Find' ((heap (notifyPasses ps (notifySubscribers Find kvs w)) q)
                      \<lparr>Reverse := False\<rparr>) = Inr evs' \<longrightarrow>
               (\<forall>e \<in> set evs. \<forall>e' \<in> set evs'. UUID e' \<noteq> UUID e) \<and>
               buf (chans (notifySubscribers Find' kvs'
                      ((notifyPasses ps (notifySubscribers Find kvs w))\<lparr>chans := cs\<rparr>)) c) =
                 buf (cs c) @ take (cap (cs c) - length (buf (cs c))) evs'))"
proof -
  have turn_cursor: "SinceUUID (heap (notifyOne Find (c, q) w) q) = UUID (last evs)"
    using assms by (simp add: notifyOne_cursor spec_cursor_def)
  have turn_buf: "buf (chans (notifyOne Find (c, q) w) c) =
      buf (chans w c) @ take (cap (chans w c) - length (buf (chans w c))) evs"
    using notifyOne_Inr [where Find = Find and c = c, OF assms(1)]
    by (simp add: sendEvents_buf)
  have turn_full: "cap (chans w c) \<le> length (buf (chans w c)) \<longrightarrow>
      chans (notifyOne Find (c, q) w) = chans w"
    using notifyOne_chans_full [of w "(c, q)" Find] by simp
  have turn_later: "transp before \<longrightarrow> irreflp before \<longrightarrow> find_contract before Find \<longrightarrow>
      (\<forall>pass \<in> set ps. find_contract before (fst pass)) \<longrightarrow>
      find_contract before Find' \<longrightarrow>
      Find' ((heap (notifyPasses ps (notifyOne Find (c, q) w)) q)\<lparr>Reverse := False\<rparr>) =
        Inr evs' \<longrightarrow>
      (\<forall>e \<in> set evs. \<forall>e' \<in> set evs'. UUID e' \<noteq> UUID e)"
  proof (intro impI ballI)
    fix e e'
    assume "transp before" "irreflp before" "find_contract before Find"
      "\<forall>pass \<in> set ps. find_contract before (fst pass)" "find_contract before Find'"
      "Find' ((heap (notifyPasses ps (notifyOne Find (c, q) w)) q)\<lparr>Reverse := False\<rparr>) = Inr evs'"
      "e \<in> set evs" "e' \<in> set evs'"
    then show "UUID e' \<noteq> UUID e"
      using assms by (intro later_batch_is_new [where e = e and e' = e'])
  qed
  have pass: "range_order (entries w) kvs \<longrightarrow> entries w c = Some q \<longrightarrow>
      (\<forall>c'. entries w c' = Some q \<longrightarrow> c' = c) \<longrightarrow>
        SinceUUID (heap (notifySubscribers Find kvs w) q) = UUID (last evs) \<and>
        buf (chans (notifySubscribers Find kvs w) c) =
          buf (chans w c) @ take (cap (chans w c) - length (buf (chans w c))) evs \<and>
        (cap (chans w c) \<le> length (buf (chans w c)) \<longrightarrow>
           chans (notifySubscribers Find kvs w) c = chans w c) \<and>
        (transp before \<longrightarrow> irreflp before \<longrightarrow> find_contract before Find \<longrightarrow>
         (\<forall>pass \<in> set ps. find_contract before (fst pass)) \<longrightarrow>
         find_contract before Find' \<longrightarrow> range_order (entries w) kvs' \<longrightarrow>
         Find' ((heap (notifyPasses ps (notifySubscribers Find kvs w)) q)
                  \<lparr>Reverse := False\<rparr>) = Inr evs' \<longrightarrow>
           (\<forall>e \<in> set evs. \<forall>e' \<in> set evs'. UUID e' \<noteq> UUID e) \<and>
           buf (chans (notifySubscribers Find' kvs'
                  ((notifyPasses ps (notifySubscribers Find kvs w))\<lparr>chans := cs\<rparr>)) c) =
             buf (cs c) @ take (cap (cs c) - length (buf (cs c))) evs')"
  proof (intro impI)
    assume registered: "range_order (entries w) kvs" "entries w c = Some q"
      "\<forall>c'. entries w c' = Some q \<longrightarrow> c' = c"
    note kvs = range_order_unshared [OF registered]
    have "SinceUUID (heap (notifySubscribers Find kvs w) q) = spec_cursor Find (heap w q)"
      using kvs [THEN conjunct1] kvs [THEN conjunct2, THEN conjunct1]
        kvs [THEN conjunct2, THEN conjunct2]
      by (rule notifySubscribers_cursor_unshared)
    then have cursor: "SinceUUID (heap (notifySubscribers Find kvs w) q) = UUID (last evs)"
      using assms by (simp add: spec_cursor_def)
    have "chans (notifySubscribers Find kvs w) c =
        (case Find ((heap w q)\<lparr>Reverse := False\<rparr>) of
           Inl err \<Rightarrow> chans w c
         | Inr evs \<Rightarrow> sendEvents evs (chans w c))"
      using kvs [THEN conjunct1] kvs [THEN conjunct2, THEN conjunct1]
        kvs [THEN conjunct2, THEN conjunct2]
      by (rule notifySubscribers_chans_unshared)
    then have sent: "chans (notifySubscribers Find kvs w) c = sendEvents evs (chans w c)"
      using assms(1) by simp
    then have buffer: "buf (chans (notifySubscribers Find kvs w) c) =
        buf (chans w c) @ take (cap (chans w c) - length (buf (chans w c))) evs"
      by (simp add: sendEvents_buf)
    have full: "cap (chans w c) \<le> length (buf (chans w c)) \<longrightarrow>
        chans (notifySubscribers Find kvs w) c = chans w c"
      using sent by (simp add: sendEvents_full)
    have later: "transp before \<longrightarrow> irreflp before \<longrightarrow> find_contract before Find \<longrightarrow>
        (\<forall>pass \<in> set ps. find_contract before (fst pass)) \<longrightarrow>
        find_contract before Find' \<longrightarrow> range_order (entries w) kvs' \<longrightarrow>
        Find' ((heap (notifyPasses ps (notifySubscribers Find kvs w)) q)
                 \<lparr>Reverse := False\<rparr>) = Inr evs' \<longrightarrow>
          (\<forall>e \<in> set evs. \<forall>e' \<in> set evs'. UUID e' \<noteq> UUID e) \<and>
          buf (chans (notifySubscribers Find' kvs'
                 ((notifyPasses ps (notifySubscribers Find kvs w))\<lparr>chans := cs\<rparr>)) c) =
            buf (cs c) @ take (cap (cs c) - length (buf (cs c))) evs'"
    proof (intro impI)
      assume order: "transp before" "irreflp before" and first: "find_contract before Find"
        and passes: "\<forall>pass \<in> set ps. find_contract before (fst pass)"
        and contract: "find_contract before Find'"
        and visit: "range_order (entries w) kvs'"
        and batch: "Find' ((heap (notifyPasses ps (notifySubscribers Find kvs w)) q)
                 \<lparr>Reverse := False\<rparr>) = Inr evs'"
      define w3 where "w3 = (notifyPasses ps (notifySubscribers Find kvs w))\<lparr>chans := cs\<rparr>"
      have sorted: "sorted_wrt (\<lambda>a b. before (UUID a) (UUID b)) evs"
        using first assms(1) by (rule batch_sorted)
      have new: "\<forall>e \<in> set evs. \<forall>e' \<in> set evs'. UUID e' \<noteq> UUID e"
      proof (intro ballI)
        fix e e'
        assume "e \<in> set evs" "e' \<in> set evs'"
        with order sorted cursor passes contract batch show "UUID e' \<noteq> UUID e"
          by (rule batch_after_cursor_is_new)
      qed
      have same_registry: "entries w3 = entries w"
        unfolding w3_def using entries_notifyPasses [of ps Find kvs w]
        by (simp add: entries_def)
      have same_heap: "heap w3 = heap (notifyPasses ps (notifySubscribers Find kvs w))"
        and channels: "chans w3 = cs"
        unfolding w3_def by simp_all
      have "range_order (entries w3) kvs'" "entries w3 c = Some q"
        "\<forall>c'. entries w3 c' = Some q \<longrightarrow> c' = c"
        unfolding same_registry by (rule visit registered)+
      note kvs' = range_order_unshared [OF this]
      have "chans (notifySubscribers Find' kvs' w3) c =
          (case Find' ((heap w3 q)\<lparr>Reverse := False\<rparr>) of
             Inl err \<Rightarrow> chans w3 c
           | Inr evs \<Rightarrow> sendEvents evs (chans w3 c))"
        using kvs' [THEN conjunct1] kvs' [THEN conjunct2, THEN conjunct1]
          kvs' [THEN conjunct2, THEN conjunct2]
        by (rule notifySubscribers_chans_unshared)
      then have "chans (notifySubscribers Find' kvs' w3) c = sendEvents evs' (cs c)"
        using batch by (simp add: same_heap channels)
      then have "buf (chans (notifySubscribers Find' kvs' w3) c) =
          buf (cs c) @ take (cap (cs c) - length (buf (cs c))) evs'"
        by (simp add: sendEvents_buf)
      with new show "(\<forall>e \<in> set evs. \<forall>e' \<in> set evs'. UUID e' \<noteq> UUID e) \<and>
          buf (chans (notifySubscribers Find' kvs'
                 ((notifyPasses ps (notifySubscribers Find kvs w))\<lparr>chans := cs\<rparr>)) c) =
            buf (cs c) @ take (cap (cs c) - length (buf (cs c))) evs'"
        unfolding w3_def by (intro conjI)
    qed
    show "SinceUUID (heap (notifySubscribers Find kvs w) q) = UUID (last evs) \<and>
        buf (chans (notifySubscribers Find kvs w) c) =
          buf (chans w c) @ take (cap (chans w c) - length (buf (chans w c))) evs \<and>
        (cap (chans w c) \<le> length (buf (chans w c)) \<longrightarrow>
           chans (notifySubscribers Find kvs w) c = chans w c) \<and>
        (transp before \<longrightarrow> irreflp before \<longrightarrow> find_contract before Find \<longrightarrow>
         (\<forall>pass \<in> set ps. find_contract before (fst pass)) \<longrightarrow>
         find_contract before Find' \<longrightarrow> range_order (entries w) kvs' \<longrightarrow>
         Find' ((heap (notifyPasses ps (notifySubscribers Find kvs w)) q)
                  \<lparr>Reverse := False\<rparr>) = Inr evs' \<longrightarrow>
           (\<forall>e \<in> set evs. \<forall>e' \<in> set evs'. UUID e' \<noteq> UUID e) \<and>
           buf (chans (notifySubscribers Find' kvs'
                  ((notifyPasses ps (notifySubscribers Find kvs w))\<lparr>chans := cs\<rparr>)) c) =
             buf (cs c) @ take (cap (cs c) - length (buf (cs c))) evs')"
      using cursor buffer full later by (intro conjI)
  qed
  show ?thesis
    using turn_cursor turn_buf turn_full turn_later pass by (intro conjI)
qed

theorem cursor_advances_past_dropped_events_witness:
  "ex_find ((heap ex_world 10)\<lparr>Reverse := False\<rparr>) =
     Inr [\<lparr>UUID = ''u2''\<rparr>, \<lparr>UUID = ''u3''\<rparr>, \<lparr>UUID = ''u4''\<rparr>] \<and>
   range_order (entries ex_world) ex_order \<and> entries ex_world 1 = Some 10 \<and>
   SinceUUID (heap ex_world 10) = ''u1'' \<and> buf (chans ex_world 1) = [] \<and>
   SinceUUID (heap (notifyOne ex_find (1, 10) ex_world) 10) = ''u4'' \<and>
   buf (chans (notifyOne ex_find (1, 10) ex_world) 1) = [\<lparr>UUID = ''u2''\<rparr>] \<and>
   SinceUUID (heap (notifySubscribers ex_find ex_order ex_world) 10) = ''u4'' \<and>
   buf (chans (notifySubscribers ex_find ex_order ex_world) 1) = [\<lparr>UUID = ''u2''\<rparr>] \<and>
   ex_find_later
     ((heap (notifyPasses [(ex_find, ex_order)] (notifySubscribers ex_find ex_order ex_world)) 10)
        \<lparr>Reverse := False\<rparr>) = Inr [\<lparr>UUID = ''u5''\<rparr>] \<and>
   buf (chans (notifySubscribers ex_find_later ex_order
         ((notifyPasses [(ex_find, ex_order)] (notifySubscribers ex_find ex_order ex_world))
            \<lparr>chans := ex_chans\<rparr>)) 1) = [\<lparr>UUID = ''u5''\<rparr>] \<and>
   UUID \<lparr>UUID = ''u5''\<rparr> \<noteq> UUID \<lparr>UUID = ''u3''\<rparr>"
proof -
  have batch: "ex_find ((heap ex_world 10)\<lparr>Reverse := False\<rparr>) =
      Inr [\<lparr>UUID = ''u2''\<rparr>, \<lparr>UUID = ''u3''\<rparr>, \<lparr>UUID = ''u4''\<rparr>]"
    by (simp add: ex_world_def ex_heap_def ex_query_def ex_find_def ex_log_def ex_after_def
        ex_before_def ex_rank_def)
  have nonempty: "[\<lparr>UUID = ''u2''\<rparr>, \<lparr>UUID = ''u3''\<rparr>, \<lparr>UUID = ''u4''\<rparr>] \<noteq> []"
    by simp
  have entry: "entries ex_world 1 = Some 10"
    by (simp add: entries_def ex_world_def)
  have unshared: "\<forall>c'. entries ex_world c' = Some 10 \<longrightarrow> c' = 1"
    by (simp add: entries_def ex_world_def)
  have start: "SinceUUID (heap ex_world 10) = ''u1''"
    by (simp add: ex_world_def ex_heap_def ex_query_def)
  have empty: "buf (chans ex_world 1) = []"
    by (simp add: ex_world_def ex_chans_def)
  note facts = cursor_advances_past_dropped_events [where Find = ex_find and w = ex_world
      and q = 10 and c = 1 and before = ex_before and ps = "[(ex_find, ex_order)]"
      and Find' = ex_find_later and evs' = "[\<lparr>UUID = ''u5''\<rparr>]" and kvs = ex_order
      and kvs' = ex_order and cs = ex_chans, OF batch nonempty]
  note turn = facts [THEN conjunct1] facts [THEN conjunct2, THEN conjunct1]
  note pass = facts [THEN conjunct2, THEN conjunct2, THEN conjunct2, THEN conjunct2,
      THEN mp, THEN mp, THEN mp, OF ex_range_order entry unshared]
  have turn_cursor: "SinceUUID (heap (notifyOne ex_find (1, 10) ex_world) 10) = ''u4''"
    using turn(1) by simp
  have turn_buf: "buf (chans (notifyOne ex_find (1, 10) ex_world) 1) = [\<lparr>UUID = ''u2''\<rparr>]"
    using turn(2) by (simp add: ex_world_def ex_chans_def)
  have pass_cursor: "SinceUUID (heap (notifySubscribers ex_find ex_order ex_world) 10) = ''u4''"
    using pass [THEN conjunct1] by simp
  have pass_buf: "buf (chans (notifySubscribers ex_find ex_order ex_world) 1) = [\<lparr>UUID = ''u2''\<rparr>]"
    using pass [THEN conjunct2, THEN conjunct1] by (simp add: ex_world_def ex_chans_def)
  have later: "ex_find_later
      ((heap (notifyPasses [(ex_find, ex_order)] (notifySubscribers ex_find ex_order ex_world)) 10)
        \<lparr>Reverse := False\<rparr>) = Inr [\<lparr>UUID = ''u5''\<rparr>]"
    by (simp add: ex_order_def ex_world_def ex_heap_def ex_chans_def ex_query_def
        ex_find_def ex_find_later_def ex_log_later_def ex_log_def ex_after_def ex_before_def
        ex_rank_def notifyOne_def trySend_def Let_def)
  have order: "transp ex_before" "irreflp ex_before"
    using ex_before_order by simp_all
  have passes: "\<forall>pass \<in> set [(ex_find, ex_order)]. find_contract ex_before (fst pass)"
    by (simp add: ex_find_contract)
  note after = pass [THEN conjunct2, THEN conjunct2, THEN conjunct2, THEN mp, THEN mp, THEN mp,
      THEN mp, THEN mp, THEN mp, THEN mp,
      OF order ex_find_contract passes ex_find_later_contract ex_range_order later]
  have later_buf: "buf (chans (notifySubscribers ex_find_later ex_order
         ((notifyPasses [(ex_find, ex_order)] (notifySubscribers ex_find ex_order ex_world))
            \<lparr>chans := ex_chans\<rparr>)) 1) = [\<lparr>UUID = ''u5''\<rparr>]"
    using after [THEN conjunct2] by (simp add: ex_chans_def)
  have fresh: "UUID \<lparr>UUID = ''u5''\<rparr> \<noteq> UUID \<lparr>UUID = ''u3''\<rparr>"
    using after [THEN conjunct1] by simp
  show ?thesis
    by (intro conjI)
      (rule batch ex_range_order entry start empty turn_cursor turn_buf pass_cursor pass_buf
        later later_buf fresh)+
qed

text \<open>
  C7. For a batch that is not empty, the resume cursor of the read handler is the UUID
  of the first event of the batch when the query is reversed and the UUID of the last
  event otherwise, and this is the cursor of the page the handler hands to the template.
\<close>

theorem resume_cursor_follows_direction:
  assumes "Find (defaultWindow now_since now_until query) = Inr evs" and "evs \<noteq> []"
  shows "lastUUID query evs = (if Reverse query then UUID (hd evs) else UUID (last evs)) \<and>
         LastUUID (rsp format fmt_time (defaultWindow now_since now_until query) evs) =
           (if Reverse query then UUID (hd evs) else UUID (last evs)) \<and>
         HandleRead Find now_since now_until format fmt_time (Inr execute) query =
           (defaultWindow now_since now_until query,
            case execute (rsp format fmt_time (defaultWindow now_since now_until query) evs) of
              Inl err \<Rightarrow> ([err], WriteJSON err)
            | Inr bytes \<Rightarrow> ([], Write bytes))"
proof -
  have "Reverse (defaultWindow now_since now_until query) = Reverse query"
    using defaultWindow_fields [of now_since now_until query] by simp
  then have "LastUUID (rsp format fmt_time (defaultWindow now_since now_until query) evs) =
      (if Reverse query then UUID (hd evs) else UUID (last evs))"
    using assms(2) by (simp add: rsp_def lastUUID_nonempty)
  then show ?thesis
    using assms(2) HandleRead_page [where Find = Find and format = format and fmt_time = fmt_time
      and execute = execute, OF assms(1)]
    by (simp add: lastUUID_nonempty)
qed

theorem resume_cursor_follows_direction_witness:
  "ex_find (defaultWindow 7200000000000 7200000000001 (ex_query ''u1'' True)) =
     Inr [\<lparr>UUID = ''u4''\<rparr>, \<lparr>UUID = ''u3''\<rparr>, \<lparr>UUID = ''u2''\<rparr>] \<and>
   LastUUID (rsp ex_format ex_fmt_time
       (defaultWindow 7200000000000 7200000000001 (ex_query ''u1'' True))
       [\<lparr>UUID = ''u4''\<rparr>, \<lparr>UUID = ''u3''\<rparr>, \<lparr>UUID = ''u2''\<rparr>]) = ''u4'' \<and>
   ex_find (defaultWindow 7200000000000 7200000000001 (ex_query ''u1'' False)) =
     Inr [\<lparr>UUID = ''u2''\<rparr>, \<lparr>UUID = ''u3''\<rparr>, \<lparr>UUID = ''u4''\<rparr>] \<and>
   LastUUID (rsp ex_format ex_fmt_time
       (defaultWindow 7200000000000 7200000000001 (ex_query ''u1'' False))
       [\<lparr>UUID = ''u2''\<rparr>, \<lparr>UUID = ''u3''\<rparr>, \<lparr>UUID = ''u4''\<rparr>]) = ''u4'' \<and>
   snd (snd (HandleRead ex_find 7200000000000 7200000000001 ex_format ex_fmt_time
       (Inr ex_execute) (ex_query ''u1'' True))) = Write ''u4''"
proof -
  have newest_first: "ex_find (defaultWindow 7200000000000 7200000000001 (ex_query ''u1'' True)) =
      Inr [\<lparr>UUID = ''u4''\<rparr>, \<lparr>UUID = ''u3''\<rparr>, \<lparr>UUID = ''u2''\<rparr>]"
    by (simp add: defaultWindow_def IsZero_def Add_def Hour_def Let_def ex_query_def ex_find_def
        ex_log_def ex_after_def ex_before_def ex_rank_def)
  have oldest_first: "ex_find (defaultWindow 7200000000000 7200000000001 (ex_query ''u1'' False)) =
      Inr [\<lparr>UUID = ''u2''\<rparr>, \<lparr>UUID = ''u3''\<rparr>, \<lparr>UUID = ''u4''\<rparr>]"
    by (simp add: defaultWindow_def IsZero_def Add_def Hour_def Let_def ex_query_def ex_find_def
        ex_log_def ex_after_def ex_before_def ex_rank_def)
  have ne1: "[\<lparr>UUID = ''u4''\<rparr>, \<lparr>UUID = ''u3''\<rparr>, \<lparr>UUID = ''u2''\<rparr>] \<noteq> []"
    and ne2: "[\<lparr>UUID = ''u2''\<rparr>, \<lparr>UUID = ''u3''\<rparr>, \<lparr>UUID = ''u4''\<rparr>] \<noteq> []"
    by simp_all
  note reversed = resume_cursor_follows_direction [where Find = ex_find
      and format = ex_format and fmt_time = ex_fmt_time and execute = ex_execute,
      OF newest_first ne1]
  note forward = resume_cursor_follows_direction [where Find = ex_find
      and format = ex_format and fmt_time = ex_fmt_time and execute = ex_execute,
      OF oldest_first ne2]
  have r: "Reverse (ex_query ''u1'' True)" and f: "\<not> Reverse (ex_query ''u1'' False)"
    by (simp_all add: ex_query_def)
  have c1: "LastUUID (rsp ex_format ex_fmt_time
       (defaultWindow 7200000000000 7200000000001 (ex_query ''u1'' True))
       [\<lparr>UUID = ''u4''\<rparr>, \<lparr>UUID = ''u3''\<rparr>, \<lparr>UUID = ''u2''\<rparr>]) = ''u4''"
    using reversed [THEN conjunct2, THEN conjunct1] r by simp
  have c2: "LastUUID (rsp ex_format ex_fmt_time
       (defaultWindow 7200000000000 7200000000001 (ex_query ''u1'' False))
       [\<lparr>UUID = ''u2''\<rparr>, \<lparr>UUID = ''u3''\<rparr>, \<lparr>UUID = ''u4''\<rparr>]) = ''u4''"
    using forward [THEN conjunct2, THEN conjunct1] f by simp
  have c3: "snd (snd (HandleRead ex_find 7200000000000 7200000000001 ex_format ex_fmt_time
       (Inr ex_execute) (ex_query ''u1'' True))) = Write ''u4''"
    using reversed [THEN conjunct2, THEN conjunct2] c1 by (simp add: ex_execute_def)
  show ?thesis
    by (intro conjI) (rule newest_first oldest_first c1 c2 c3)+
qed

text \<open>
  C8. The read handler replaces a zero \<^verbatim>\<open>SinceTime\<close> by the time one hour before
  the clock reading and a zero \<^verbatim>\<open>UntilTime\<close> by the clock reading; a bound that is
  not zero and every other field of the query are kept. The storage engine is asked with
  the query after the defaults: the handler depends on the engine through its answer to
  that query only.
\<close>

theorem read_defaults_to_trailing_hour:
  "SinceTime (fst (HandleRead Find now_since now_until format fmt_time tmpl query)) =
     (if SinceTime query = 0 then now_since - 3600 * 1000000000 else SinceTime query) \<and>
   UntilTime (fst (HandleRead Find now_since now_until format fmt_time tmpl query)) =
     (if UntilTime query = 0 then now_until else UntilTime query) \<and>
   Services (fst (HandleRead Find now_since now_until format fmt_time tmpl query)) = Services query \<and>
   Severity (fst (HandleRead Find now_since now_until format fmt_time tmpl query)) = Severity query \<and>
   SinceUUID (fst (HandleRead Find now_since now_until format fmt_time tmpl query)) = SinceUUID query \<and>
   Reverse (fst (HandleRead Find now_since now_until format fmt_time tmpl query)) = Reverse query \<and>
   (Find' (fst (HandleRead Find now_since now_until format fmt_time tmpl query)) =
      Find (fst (HandleRead Find now_since now_until format fmt_time tmpl query)) \<longrightarrow>
    HandleRead Find' now_since now_until format fmt_time tmpl query =
    HandleRead Find now_since now_until format fmt_time tmpl query)"
  using defaultWindow_fields [of now_since now_until query]
    HandleRead_cong [where Find' = Find' and Find = Find and now_since = now_since and now_until = now_until
      and query = query and format = format and fmt_time = fmt_time and tmpl = tmpl]
  by (simp add: fst_HandleRead)

theorem read_defaults_to_trailing_hour_witness:
  "SinceTime (fst (HandleRead ex_find 7200000000000 7200000000001 ex_format ex_fmt_time
       (Inr ex_execute) (ex_query ''u1'' False))) = 3600000000000 \<and>
   UntilTime (fst (HandleRead ex_find 7200000000000 7200000000001 ex_format ex_fmt_time
       (Inr ex_execute) (ex_query ''u1'' False))) = 7200000000001 \<and>
   SinceTime (fst (HandleRead ex_find 7200000000000 7200000000001 ex_format ex_fmt_time
       (Inr ex_execute) ((ex_query ''u1'' False)\<lparr>SinceTime := 5\<rparr>))) = 5 \<and>
   HandleRead ex_find_later 7200000000000 7200000000001 ex_format ex_fmt_time
       (Inr ex_execute) (ex_query ''u5'' False) =
   HandleRead ex_find_empty 7200000000000 7200000000001 ex_format ex_fmt_time
       (Inr ex_execute) (ex_query ''u5'' False)"
proof -
  note unset = read_defaults_to_trailing_hour [where Find = ex_find
      and now_since = 7200000000000 and now_until = 7200000000001 and format = ex_format
      and fmt_time = ex_fmt_time and tmpl = "Inr ex_execute" and query = "ex_query ''u1'' False"]
  note set = read_defaults_to_trailing_hour [where Find = ex_find
      and now_since = 7200000000000 and now_until = 7200000000001 and format = ex_format
      and fmt_time = ex_fmt_time and tmpl = "Inr ex_execute"
      and query = "(ex_query ''u1'' False)\<lparr>SinceTime := 5\<rparr>"]
  note same = read_defaults_to_trailing_hour [where Find = ex_find_empty
      and Find' = ex_find_later
      and now_since = 7200000000000 and now_until = 7200000000001 and format = ex_format
      and fmt_time = ex_fmt_time and tmpl = "Inr ex_execute" and query = "ex_query ''u5'' False"]
  have zero: "SinceTime (ex_query ''u1'' False) = 0" "UntilTime (ex_query ''u1'' False) = 0"
    by (simp_all add: ex_query_def)
  have s1: "SinceTime (fst (HandleRead ex_find 7200000000000 7200000000001 ex_format
       ex_fmt_time (Inr ex_execute) (ex_query ''u1'' False))) = 3600000000000"
    using unset [THEN conjunct1] zero by simp
  have s2: "UntilTime (fst (HandleRead ex_find 7200000000000 7200000000001 ex_format
       ex_fmt_time (Inr ex_execute) (ex_query ''u1'' False))) = 7200000000001"
    using unset [THEN conjunct2, THEN conjunct1] zero by simp
  have s3: "SinceTime (fst (HandleRead ex_find 7200000000000 7200000000001 ex_format
       ex_fmt_time (Inr ex_execute) ((ex_query ''u1'' False)\<lparr>SinceTime := 5\<rparr>))) = 5"
    using set [THEN conjunct1] by simp
  have "ex_find_later (fst (HandleRead ex_find_empty 7200000000000 7200000000001 ex_format
       ex_fmt_time (Inr ex_execute) (ex_query ''u5'' False))) =
     ex_find_empty (fst (HandleRead ex_find_empty 7200000000000 7200000000001 ex_format
       ex_fmt_time (Inr ex_execute) (ex_query ''u5'' False)))"
    by (simp add: fst_HandleRead defaultWindow_def IsZero_def Add_def Hour_def Let_def
        ex_query_def ex_find_later_def ex_find_empty_def ex_log_later_def ex_log_def
        ex_after_def ex_before_def ex_rank_def)
  then have s4: "HandleRead ex_find_later 7200000000000 7200000000001 ex_format ex_fmt_time
       (Inr ex_execute) (ex_query ''u5'' False) =
     HandleRead ex_find_empty 7200000000000 7200000000001 ex_format ex_fmt_time
       (Inr ex_execute) (ex_query ''u5'' False)"
    by (rule same [THEN conjunct2, THEN conjunct2, THEN conjunct2, THEN conjunct2,
          THEN conjunct2, THEN conjunct2, THEN mp])
  show ?thesis
    by (intro conjI) (rule s1 s2 s3 s4)+
qed

text \<open>
  C10. When the historical query returns no event, the page the read handler hands to the
  template has the empty string as its resume cursor. A request body that carries this
  cursor parses to a query without a cursor, and \<^verbatim>\<open>Subscribe\<close> rejects that query
  and registers no_events: an empty first page cannot start a live tail.
\<close>

theorem empty_page_cannot_start_live_tail:
  assumes "Find (defaultWindow now_since now_until query) = Inr []"
  shows "LastUUID (rsp format fmt_time (defaultWindow now_since now_until query) []) = '''' \<and>
         HandleRead Find now_since now_until format fmt_time (Inr execute) query =
           (defaultWindow now_since now_until query,
            case execute (rsp format fmt_time (defaultWindow now_since now_until query) []) of
              Inl err \<Rightarrow> ([err], WriteJSON err)
            | Inr bytes \<Rightarrow> ([], Write bytes)) \<and>
         (body_SinceUUID body =
            LastUUID (rsp format fmt_time (defaultWindow now_since now_until query) []) \<longrightarrow>
          parseQuery parse body = Inr live \<longrightarrow> heap w q = live \<longrightarrow>
            Subscribe c q w =
              (Some (InternalService ''SinceUUID not set in subscriber query''), w))"
proof -
  have cursor: "LastUUID (rsp format fmt_time (defaultWindow now_since now_until query) []) = ''''"
    by (simp add: rsp_def lastUUID_def)
  have "Subscribe c q w = (Some (InternalService ''SinceUUID not set in subscriber query''), w)"
    if "body_SinceUUID body =
        LastUUID (rsp format fmt_time (defaultWindow now_since now_until query) [])"
      and "parseQuery parse body = Inr live" and "heap w q = live"
  proof (rule Subscribe_empty)
    from that(2) have "SinceUUID live = body_SinceUUID body"
      by (rule parseQuery_SinceUUID)
    with that(1,3) cursor show "SinceUUID (heap w q) = ''''" by simp
  qed
  with cursor show ?thesis
    using HandleRead_page [where Find = Find and format = format and fmt_time = fmt_time
      and execute = execute, OF assms]
    by simp
qed

theorem empty_page_cannot_start_live_tail_witness:
  "ex_find_empty (defaultWindow 7200000000000 7200000000001 (ex_query [] False)) = Inr [] \<and>
   snd (snd (HandleRead ex_find_empty 7200000000000 7200000000001 ex_format ex_fmt_time
       (Inr ex_execute) (ex_query [] False))) = Write [] \<and>
   body_SinceUUID ex_body = [] \<and>
   parseQuery ex_parse ex_body = Inr ex_live \<and>
   heap (ex_world\<lparr>heap := (heap ex_world)(13 := ex_live)\<rparr>) 13 = ex_live \<and>
   Subscribe 3 13 (ex_world\<lparr>heap := (heap ex_world)(13 := ex_live)\<rparr>) =
     (Some (InternalService ''SinceUUID not set in subscriber query''),
      ex_world\<lparr>heap := (heap ex_world)(13 := ex_live)\<rparr>)"
proof -
  have no_events: "ex_find_empty (defaultWindow 7200000000000 7200000000001 (ex_query [] False)) =
      Inr []"
    by (simp add: ex_find_empty_def)
  note facts = empty_page_cannot_start_live_tail [where Find = ex_find_empty
      and now_since = 7200000000000 and now_until = 7200000000001
      and query = "ex_query [] False" and format = ex_format and fmt_time = ex_fmt_time and execute = ex_execute
      and body = ex_body and parse = ex_parse and live = ex_live
      and w = "ex_world\<lparr>heap := (heap ex_world)(13 := ex_live)\<rparr>" and q = 13 and c = 3,
      OF no_events]
  have cursor: "LastUUID (rsp ex_format ex_fmt_time
      (defaultWindow 7200000000000 7200000000001 (ex_query [] False)) []) = []"
    by (rule facts [THEN conjunct1])
  have written: "snd (snd (HandleRead ex_find_empty 7200000000000 7200000000001 ex_format
      ex_fmt_time (Inr ex_execute) (ex_query [] False))) = Write []"
    using facts [THEN conjunct2, THEN conjunct1] cursor by (simp add: ex_execute_def)
  have body: "body_SinceUUID ex_body = []"
    by (simp add: ex_body_def)
  have parsed: "parseQuery ex_parse ex_body = Inr ex_live"
    by (simp add: parseQuery_def ex_parse_def ex_body_def ex_live_def remove_spaces_def Let_def)
  have stored: "heap (ex_world\<lparr>heap := (heap ex_world)(13 := ex_live)\<rparr>) 13 = ex_live"
    by simp
  have seeded: "body_SinceUUID ex_body = LastUUID (rsp ex_format ex_fmt_time
      (defaultWindow 7200000000000 7200000000001 (ex_query [] False)) [])"
    unfolding cursor by (rule body)
  have rejected: "Subscribe 3 13 (ex_world\<lparr>heap := (heap ex_world)(13 := ex_live)\<rparr>) =
      (Some (InternalService ''SinceUUID not set in subscriber query''),
       ex_world\<lparr>heap := (heap ex_world)(13 := ex_live)\<rparr>)"
    by (rule facts [THEN conjunct2, THEN conjunct2, THEN mp, THEN mp, THEN mp,
          OF seeded parsed stored])
  show ?thesis
    by (intro conjI) (rule no_events written body parsed stored rejected)+
qed

end
